theory Spec2Isabelle
  imports Main "HOL-Library.Multiset"
begin

section \<open>Platform values: numbers and strings\<close>

text \<open>
  The program is TypeScript. Its numbers are modelled on the integer fragment: a number is
  either \<open>NaN\<close> or an integer. A string is a list of 8-bit code units. A value that may be
  \<open>undefined\<close> (an array element read by destructuring) is an \<open>option\<close>.
\<close>

datatype jsnum = NaN | Num int

fun mul :: "jsnum \<Rightarrow> jsnum \<Rightarrow> jsnum" where
  "mul (Num a) (Num b) = Num (a * b)"
| "mul _ _ = NaN"

fun add :: "jsnum \<Rightarrow> jsnum \<Rightarrow> jsnum" where
  "add (Num a) (Num b) = Num (a + b)"
| "add _ _ = NaN"

fun sub :: "jsnum \<Rightarrow> jsnum \<Rightarrow> jsnum" where
  "sub (Num a) (Num b) = Num (a - b)"
| "sub _ _ = NaN"

text \<open>\<open>ToNumber\<close> of a possibly undefined number: \<open>undefined\<close> converts to \<open>NaN\<close>.\<close>

fun toNum :: "jsnum option \<Rightarrow> jsnum" where
  "toNum None = NaN"
| "toNum (Some n) = n"

text \<open>\<open>Number.isNaN\<close> does not coerce its argument: it is false on \<open>undefined\<close>.\<close>

fun isNaN :: "jsnum option \<Rightarrow> bool" where
  "isNaN (Some NaN) = True"
| "isNaN _ = False"

definition isWhiteSpace :: "char \<Rightarrow> bool" where
  "isWhiteSpace c = (of_char c \<in> {9, 10, 11, 12, 13, 32, 160 :: nat})"

definition trim :: "string \<Rightarrow> string" where
  "trim s = rev (dropWhile isWhiteSpace (rev (dropWhile isWhiteSpace s)))"

definition isDigit :: "char \<Rightarrow> bool" where
  "isDigit c = (48 \<le> (of_char c :: nat) \<and> (of_char c :: nat) \<le> 57)"

definition digitVal :: "char \<Rightarrow> int" where
  "digitVal c = int (of_char c) - 48"

definition decimal :: "string \<Rightarrow> int" where
  "decimal s = foldl (\<lambda>acc c. 10 * acc + digitVal c) 0 s"

text \<open>
  \<open>Number(s)\<close> on a string: white space is trimmed, the empty string is 0, an optionally
  signed run of decimal digits is its value, anything else is \<open>NaN\<close>. Literals with a
  fraction, an exponent or a radix prefix, and \<open>Infinity\<close>, lie outside the integer
  fragment; no input used below contains one.
\<close>

definition toNumber :: "string \<Rightarrow> jsnum" where
  "toNumber s =
     (let t = trim s in
      if t = [] then Num 0
      else if list_all isDigit t then Num (decimal t)
      else (case t of
              c # r \<Rightarrow>
                if (c = CHR ''+'' \<or> c = CHR ''-'') \<and> r \<noteq> [] \<and> list_all isDigit r
                then Num ((if c = CHR ''-'' then - 1 else 1) * decimal r)
                else NaN
            | [] \<Rightarrow> NaN))"

text \<open>\<open>s.split(sep)\<close> for a one-character separator: never the empty array.\<close>

fun str_split :: "char \<Rightarrow> string \<Rightarrow> string list" where
  "str_split sep [] = [[]]"
| "str_split sep (c # cs) =
     (if c = sep then [] # str_split sep cs
      else (case str_split sep cs of
              p # ps \<Rightarrow> (c # p) # ps
            | [] \<Rightarrow> [[c]]))"

text \<open>Reading position \<open>i\<close> of an array by destructuring: \<open>undefined\<close> past the end.\<close>

definition nth_opt :: "'a list \<Rightarrow> nat \<Rightarrow> 'a option" where
  "nth_opt xs i = (if i < length xs then Some (xs ! i) else None)"

definition digitChar :: "nat \<Rightarrow> char" where
  "digitChar n = char_of (48 + n)"

fun natToString :: "nat \<Rightarrow> string" where
  "natToString n =
     (if n < 10 then [digitChar n] else natToString (n div 10) @ [digitChar (n mod 10)])"

declare natToString.simps [simp del]

text \<open>\<open>String(n)\<close> for a number of the integer fragment.\<close>

fun numToString :: "jsnum \<Rightarrow> string" where
  "numToString NaN = ''NaN''"
| "numToString (Num i) = (if i < 0 then CHR ''-'' # natToString (nat (- i)) else natToString (nat i))"

definition padStart :: "nat \<Rightarrow> char \<Rightarrow> string \<Rightarrow> string" where
  "padStart n c s = replicate (n - length s) c @ s"

section \<open>Time of day\<close>

text \<open>\<open>timeToMinutes\<close>: the result \<open>None\<close> is the source's \<open>null\<close>.\<close>

definition timeToMinutes :: "string \<Rightarrow> jsnum option" where
  "timeToMinutes v =
     (if v = [] then None
      else
        (let parts = map toNumber (str_split CHR '':'' v);
             hours = nth_opt parts 0;
             minutes = nth_opt parts 1
         in if isNaN hours \<or> isNaN minutes then None
            else Some (add (mul (toNum hours) (Num 60)) (toNum minutes))))"

text \<open>\<open>Math.max(0, Math.min(23 * 60 + 59, minutes))\<close>: \<open>NaN\<close> propagates.\<close>

fun clampMinutes :: "jsnum \<Rightarrow> jsnum" where
  "clampMinutes NaN = NaN"
| "clampMinutes (Num m) = Num (max 0 (min (23 * 60 + 59) m))"

fun floorDiv60 :: "jsnum \<Rightarrow> jsnum" where
  "floorDiv60 NaN = NaN"
| "floorDiv60 (Num m) = Num (m div 60)"

fun rem60 :: "jsnum \<Rightarrow> jsnum" where
  "rem60 NaN = NaN"
| "rem60 (Num m) = Num (if 0 \<le> m then m mod 60 else - ((- m) mod 60))"

definition minutesToTime :: "jsnum \<Rightarrow> string" where
  "minutesToTime minutes =
     (let clamped = clampMinutes minutes;
          hours = floorDiv60 clamped;
          mins = rem60 clamped
      in padStart 2 CHR ''0'' (numToString hours) @ '':'' @ padStart 2 CHR ''0'' (numToString mins))"

section \<open>Calendar dates\<close>

text \<open>
  The platform's \<open>Date\<close> is modelled at the granularity the program uses: a date is either
  invalid or a day number, counted in local civil days from 1 January 1970. The day
  arithmetic follows the language standard: \<open>DayFromYear\<close>, \<open>YearFromTime\<close> (the largest
  year whose first day is not after the given day), \<open>MonthFromTime\<close>, \<open>DateFromTime\<close>,
  \<open>WeekDay\<close> and \<open>MakeDay\<close>. A date is represented by the local civil day on which its
  instant falls: the modelled functions build dates from a year, a month and a day only, and
  read only the local year, month, day of the month and day of the week.
\<close>

datatype jsdate = InvalidDate | Day int

definition isLeapYear :: "int \<Rightarrow> bool" where
  "isLeapYear y = (y mod 4 = 0 \<and> (y mod 100 \<noteq> 0 \<or> y mod 400 = 0))"

definition DaysInYear :: "int \<Rightarrow> int" where
  "DaysInYear y = (if isLeapYear y then 366 else 365)"

definition DayFromYear :: "int \<Rightarrow> int" where
  "DayFromYear y = 365 * (y - 1970) + (y - 1969) div 4 - (y - 1901) div 100 + (y - 1601) div 400"

lemma div_step:
  fixes a k :: int
  assumes "0 < k"
  shows "(a + 1) div k = a div k + (if (a + 1) mod k = 0 then 1 else 0)"
proof -
  define q where "q = a div k"
  define r where "r = a mod k"
  have a: "a = k * q + r" and r: "0 \<le> r" "r < k"
    using assms by (simp_all add: q_def r_def)
  show ?thesis
  proof (cases "r + 1 = k")
    case True
    then have "a + 1 = k * (q + 1)" using a by (simp add: algebra_simps)
    then have "(a + 1) div k = q + 1" "(a + 1) mod k = 0" using assms by simp_all
    then show ?thesis by (simp add: q_def)
  next
    case False
    then have lt: "r + 1 < k" using r by simp
    have eq: "a + 1 = (r + 1) + q * k" using a by (simp add: algebra_simps)
    have "(a + 1) div k = q" "(a + 1) mod k = r + 1"
      unfolding eq using lt r by simp_all
    then show ?thesis using r by (simp add: q_def)
  qed
qed

lemma mod_shift: "(y - c * k) mod k = (y::int) mod k"
proof -
  have "y - c * k = y + (- c) * k" by simp
  then show ?thesis by (metis mod_mult_self1)
qed

lemma dvd_mod_0: "(k::int) dvd n \<Longrightarrow> y mod n = 0 \<Longrightarrow> y mod k = 0"
proof -
  assume k: "k dvd n" and "y mod n = 0"
  then have "n dvd y" by (simp add: dvd_eq_mod_eq_0)
  with k have "k dvd y" by (rule dvd_trans)
  then show ?thesis by simp
qed

lemma DayFromYear_step: "DayFromYear (y + 1) = DayFromYear y + DaysInYear y"
proof -
  define A where "A = (y - 1969) div 4"
  define B where "B = (y - 1901) div 100"
  define C where "C = (y - 1601) div 400"
  define p4 where "p4 = (y mod 4 = 0)"
  define p100 where "p100 = (y mod 100 = 0)"
  define p400 where "p400 = (y mod 400 = 0)"
  have "(y - 1969 + 1) div 4 = (y - 1969) div 4 + (if (y - 1969 + 1) mod 4 = 0 then 1 else 0)"
    by (rule div_step) simp
  moreover have "(y - 492 * 4) mod 4 = y mod 4" by (rule mod_shift)
  ultimately have a: "(y - 1968) div 4 = A + (if p4 then 1 else 0)"
    by (simp add: A_def p4_def)
  have "(y - 1901 + 1) div 100 = (y - 1901) div 100 + (if (y - 1901 + 1) mod 100 = 0 then 1 else 0)"
    by (rule div_step) simp
  moreover have "(y - 19 * 100) mod 100 = y mod 100" by (rule mod_shift)
  ultimately have b: "(y - 1900) div 100 = B + (if p100 then 1 else 0)"
    by (simp add: B_def p100_def)
  have "(y - 1601 + 1) div 400 = (y - 1601) div 400 + (if (y - 1601 + 1) mod 400 = 0 then 1 else 0)"
    by (rule div_step) simp
  moreover have "(y - 4 * 400) mod 400 = y mod 400" by (rule mod_shift)
  ultimately have c: "(y - 1600) div 400 = C + (if p400 then 1 else 0)"
    by (simp add: C_def p400_def)
  have i1: "p100 \<Longrightarrow> p4" unfolding p100_def p4_def by (rule dvd_mod_0[of 4 100]) simp_all
  have i2: "p400 \<Longrightarrow> p100" unfolding p100_def p400_def by (rule dvd_mod_0[of 100 400]) simp_all
  have next_year: "DayFromYear (y + 1) =
      365 * (y - 1969) + (A + (if p4 then 1 else 0)) - (B + (if p100 then 1 else 0))
        + (C + (if p400 then 1 else 0))"
    unfolding a[symmetric] b[symmetric] c[symmetric] by (simp add: DayFromYear_def)
  have this_year: "DayFromYear y = 365 * (y - 1970) + A - B + C"
    by (simp add: DayFromYear_def A_def B_def C_def)
  have len: "DaysInYear y = (if p4 \<and> (\<not> p100 \<or> p400) then 366 else 365)"
    by (simp add: DaysInYear_def isLeapYear_def p4_def p100_def p400_def)
  show ?thesis
    unfolding next_year this_year len using i1 i2 by (cases p4; cases p100; cases p400) simp_all
qed

lemma DayFromYear_less: "DayFromYear y < DayFromYear (y + 1)"
  by (simp add: DayFromYear_step DaysInYear_def)

function yearSearch :: "int \<Rightarrow> int \<Rightarrow> int" where
  "yearSearch day y = (if DayFromYear (y + 1) \<le> day then yearSearch day (y + 1) else y)"
  by pat_completeness auto
termination
proof (relation "measure (\<lambda>(day, y). nat (day + 1 - DayFromYear (y + 1)))")
  show "wf (measure (\<lambda>(day, y). nat (day + 1 - DayFromYear (y + 1))))" by simp
next
  fix day y :: int
  assume "DayFromYear (y + 1) \<le> day"
  moreover have "DayFromYear (y + 1) < DayFromYear (y + 1 + 1)" by (rule DayFromYear_less)
  ultimately show "((day, y + 1), (day, y)) \<in> measure (\<lambda>(day, y). nat (day + 1 - DayFromYear (y + 1)))"
    by simp
qed

declare yearSearch.simps [simp del]


text \<open>
  The search starts at a year that is not after the year of the day (a year has at most
  366 and at least 365 days) and walks up to the last year that starts on or before it.
\<close>

definition YearFromDay :: "int \<Rightarrow> int" where
  "YearFromDay day = yearSearch day (1970 + (if 0 \<le> day then day div 366 else day div 365))"

definition DayWithinYear :: "int \<Rightarrow> int" where
  "DayWithinYear day = day - DayFromYear (YearFromDay day)"

definition InLeapYear :: "int \<Rightarrow> int" where
  "InLeapYear day = (if isLeapYear (YearFromDay day) then 1 else 0)"

definition MonthFromDay :: "int \<Rightarrow> int" where
  "MonthFromDay day =
     (let d = DayWithinYear day; l = InLeapYear day
      in if d < 31 then 0
         else if d < 59 + l then 1
         else if d < 90 + l then 2
         else if d < 120 + l then 3
         else if d < 151 + l then 4
         else if d < 181 + l then 5
         else if d < 212 + l then 6
         else if d < 243 + l then 7
         else if d < 273 + l then 8
         else if d < 304 + l then 9
         else if d < 334 + l then 10
         else 11)"

definition DateFromDay :: "int \<Rightarrow> int" where
  "DateFromDay day =
     (let d = DayWithinYear day; l = InLeapYear day; m = MonthFromDay day
      in if m = 0 then d + 1
         else if m = 1 then d - 30
         else if m = 2 then d - 58 - l
         else if m = 3 then d - 89 - l
         else if m = 4 then d - 119 - l
         else if m = 5 then d - 150 - l
         else if m = 6 then d - 180 - l
         else if m = 7 then d - 211 - l
         else if m = 8 then d - 242 - l
         else if m = 9 then d - 272 - l
         else if m = 10 then d - 303 - l
         else d - 333 - l)"

definition WeekDay :: "int \<Rightarrow> int" where
  "WeekDay day = (day + 4) mod 7"

text \<open>The first day of month \<open>mn\<close> (0 to 11) within a year.\<close>

definition monthStart :: "int \<Rightarrow> bool \<Rightarrow> int" where
  "monthStart mn leap =
     [0, 31, 59, 90, 120, 151, 181, 212, 243, 273, 304, 334] ! nat mn
       + (if leap \<and> 2 \<le> mn then 1 else 0)"

definition MakeDay :: "int \<Rightarrow> int \<Rightarrow> int \<Rightarrow> int" where
  "MakeDay year month date =
     (let ym = year + month div 12; mn = month mod 12
      in DayFromYear ym + monthStart mn (isLeapYear ym) + date - 1)"

text \<open>
  The host time zone. \<open>new Date(year, month, day)\<close> asks for local midnight of a civil day
  and converts it to an instant through the zone. Where the zone has that local time, or
  skips less than the rest of the day, the instant falls on the requested day; where the
  zone skips the whole civil day (Pacific/Apia has no 30 December 2011), the local time is
  read with the offset before the transition and the instant falls on a later day. A zone
  is given by the number of civil days by which it moves the requested day forward: 0
  everywhere except on the days it skips.
\<close>

type_synonym zone = "int \<Rightarrow> nat"

text \<open>
  \<open>new Date(year, month, day)\<close> in the zone \<open>tz\<close>: a year from 0 to 99 means 1900 + year;
  month and day overflow into the neighbouring months and years; the zone moves a skipped
  day forward; a day outside the representable range of 100,000,000 days around the
  epoch, or a \<open>NaN\<close> argument, gives the invalid date.
\<close>

fun newDate :: "zone \<Rightarrow> jsnum \<Rightarrow> jsnum \<Rightarrow> jsnum \<Rightarrow> jsdate" where
  "newDate tz (Num y) (Num m) (Num d) =
     (let yr = (if 0 \<le> y \<and> y \<le> 99 then 1900 + y else y);
          requested = MakeDay yr m d;
          day = requested + int (tz requested)
      in if \<bar>day\<bar> \<le> 100000000 then Day day else InvalidDate)"
| "newDate tz _ _ _ = InvalidDate"

fun getFullYear :: "jsdate \<Rightarrow> jsnum" where
  "getFullYear InvalidDate = NaN"
| "getFullYear (Day n) = Num (YearFromDay n)"

fun getMonth :: "jsdate \<Rightarrow> jsnum" where
  "getMonth InvalidDate = NaN"
| "getMonth (Day n) = Num (MonthFromDay n)"

fun getDate :: "jsdate \<Rightarrow> jsnum" where
  "getDate InvalidDate = NaN"
| "getDate (Day n) = Num (DateFromDay n)"

fun getDay :: "jsdate \<Rightarrow> jsnum" where
  "getDay InvalidDate = NaN"
| "getDay (Day n) = Num (WeekDay n)"

text \<open>\<open>a <= b\<close> on dates compares their time values; it is false when either is invalid.\<close>

fun dateLe :: "jsdate \<Rightarrow> jsdate \<Rightarrow> bool" where
  "dateLe (Day a) (Day b) = (a \<le> b)"
| "dateLe _ _ = False"

subsection \<open>The program's date utilities\<close>

definition parseLocalDate :: "zone \<Rightarrow> string \<Rightarrow> jsdate" where
  "parseLocalDate tz v =
     (let parts = map toNumber (str_split CHR ''-'' v);
          year = nth_opt parts 0;
          month = nth_opt parts 1;
          day = nth_opt parts 2
      in newDate tz (toNum year) (sub (toNum month) (Num 1)) (toNum day))"

definition toISODate :: "jsdate \<Rightarrow> string" where
  "toISODate date =
     (let year = getFullYear date;
          month = padStart 2 CHR ''0'' (numToString (add (getMonth date) (Num 1)));
          day = padStart 2 CHR ''0'' (numToString (getDate date))
      in numToString year @ ''-'' @ month @ ''-'' @ day)"

definition dayIndex :: "jsdate \<Rightarrow> jsnum" where
  "dayIndex date = (let jsDay = getDay date in if jsDay = Num 0 then Num 6 else sub jsDay (Num 1))"

definition DAYS :: "string list" where
  "DAYS = [''Mon'', ''Tue'', ''Wed'', ''Thu'', ''Fri'', ''Sat'', ''Sun'']"

text \<open>Indexing an array by a number: \<open>undefined\<close> (here \<open>None\<close>) outside the array.\<close>

fun index :: "'a list \<Rightarrow> jsnum \<Rightarrow> 'a option" where
  "index xs NaN = None"
| "index xs (Num i) = (if 0 \<le> i \<and> i < int (length xs) then Some (xs ! nat i) else None)"


subsection \<open>Properties of the calendar arithmetic\<close>

lemma DayFromYear_mono: "y \<le> y' \<Longrightarrow> DayFromYear y \<le> DayFromYear y'"
proof (induction y' rule: int_ge_induct)
  case base
  show ?case by simp
next
  case (step i)
  have "DayFromYear i < DayFromYear (i + 1)" by (rule DayFromYear_less)
  with step show ?case by simp
qed

lemma yearSearch_bounds:
  "DayFromYear y0 \<le> day \<Longrightarrow>
   DayFromYear (yearSearch day y0) \<le> day \<and> day < DayFromYear (yearSearch day y0 + 1)"
proof (induction day y0 rule: yearSearch.induct)
  case (1 day y)
  show ?case
  proof (cases "DayFromYear (y + 1) \<le> day")
    case True
    with "1.IH" show ?thesis by (subst (1 2) yearSearch.simps) simp
  next
    case False
    with "1.prems" show ?thesis by (subst (1 2) yearSearch.simps) simp
  qed
qed

lemma DayFromYear_1970: "DayFromYear 1970 = 0"
  by (simp add: DayFromYear_def)

lemma DayFromYear_upper: "0 \<le> k \<Longrightarrow> DayFromYear (1970 + k) \<le> 366 * k"
proof (induction k rule: int_ge_induct)
  case base
  show ?case by (simp add: DayFromYear_1970)
next
  case (step i)
  have "DayFromYear (1970 + i + 1) = DayFromYear (1970 + i) + DaysInYear (1970 + i)"
    by (rule DayFromYear_step)
  with step show ?case by (simp add: DaysInYear_def add.assoc split: if_splits)
qed

lemma DayFromYear_lower: "k \<le> 0 \<Longrightarrow> DayFromYear (1970 + k) \<le> 365 * k"
proof (induction k rule: int_le_induct)
  case base
  show ?case by (simp add: DayFromYear_1970)
next
  case (step i)
  have "DayFromYear (1970 + (i - 1) + 1) = DayFromYear (1970 + (i - 1)) + DaysInYear (1970 + (i - 1))"
    by (rule DayFromYear_step)
  moreover have "1970 + (i - 1) + 1 = 1970 + i" by simp
  ultimately have "DayFromYear (1970 + (i - 1)) = DayFromYear (1970 + i) - DaysInYear (1970 + (i - 1))"
    by simp
  with step show ?case by (simp add: DaysInYear_def split: if_splits)
qed

lemma estimate_le: "DayFromYear (1970 + (if 0 \<le> day then day div 366 else day div 365)) \<le> day"
proof (cases "0 \<le> day")
  case True
  then have "0 \<le> day div 366" by simp
  then have "DayFromYear (1970 + day div 366) \<le> 366 * (day div 366)" by (rule DayFromYear_upper)
  moreover have "366 * (day div 366) \<le> day" by simp
  ultimately show ?thesis using True by simp
next
  case False
  then have "day div 365 \<le> 0" by (simp add: div_nonpos_pos_le0)
  then have "DayFromYear (1970 + day div 365) \<le> 365 * (day div 365)" by (rule DayFromYear_lower)
  moreover have "365 * (day div 365) \<le> day" by simp
  ultimately show ?thesis using False by simp
qed

lemma YearFromDay_bounds:
  "DayFromYear (YearFromDay day) \<le> day \<and> day < DayFromYear (YearFromDay day + 1)"
  unfolding YearFromDay_def by (rule yearSearch_bounds) (rule estimate_le)

lemma YearFromDay_unique:
  assumes "DayFromYear y \<le> day" "day < DayFromYear (y + 1)"
  shows "YearFromDay day = y"
proof (rule ccontr)
  assume ne: "YearFromDay day \<noteq> y"
  note b = YearFromDay_bounds[of day]
  show False
  proof (cases "YearFromDay day < y")
    case True
    then have "DayFromYear (YearFromDay day + 1) \<le> DayFromYear y" by (intro DayFromYear_mono) simp
    with b assms show False by simp
  next
    case False
    with ne have "y + 1 \<le> YearFromDay day" by simp
    then have "DayFromYear (y + 1) \<le> DayFromYear (YearFromDay day)" by (rule DayFromYear_mono)
    with b assms show False by simp
  qed
qed

lemma DayWithinYear_bounds:
  "0 \<le> DayWithinYear day \<and> DayWithinYear day < DaysInYear (YearFromDay day)"
  using YearFromDay_bounds[of day] DayFromYear_step[of "YearFromDay day"]
  by (simp add: DayWithinYear_def)

text \<open>The length of month \<open>m\<close> (1 to 12) of year \<open>y\<close>.\<close>

definition daysInMonth :: "int \<Rightarrow> int \<Rightarrow> int" where
  "daysInMonth y m =
     (if m = 2 then (if isLeapYear y then 29 else 28)
      else if m = 4 \<or> m = 6 \<or> m = 9 \<or> m = 11 then 30 else 31)"

lemma month_cases:
  fixes m :: int
  assumes "0 \<le> m" "m \<le> 11"
  shows "m = 0 \<or> m = 1 \<or> m = 2 \<or> m = 3 \<or> m = 4 \<or> m = 5
    \<or> m = 6 \<or> m = 7 \<or> m = 8 \<or> m = 9 \<or> m = 10 \<or> m = 11"
  using assms by arith

lemma monthStart_simps:
  "monthStart 0 l = 0" "monthStart 1 l = 31"
  "monthStart 2 l = 59 + (if l then 1 else 0)" "monthStart 3 l = 90 + (if l then 1 else 0)"
  "monthStart 4 l = 120 + (if l then 1 else 0)" "monthStart 5 l = 151 + (if l then 1 else 0)"
  "monthStart 6 l = 181 + (if l then 1 else 0)" "monthStart 7 l = 212 + (if l then 1 else 0)"
  "monthStart 8 l = 243 + (if l then 1 else 0)" "monthStart 9 l = 273 + (if l then 1 else 0)"
  "monthStart 10 l = 304 + (if l then 1 else 0)" "monthStart 11 l = 334 + (if l then 1 else 0)"
  by (simp_all add: monthStart_def)

lemma MonthFromDay_range: "0 \<le> MonthFromDay n \<and> MonthFromDay n \<le> 11"
  by (simp add: MonthFromDay_def Let_def)

lemma month_date_parts:
  "1 \<le> DateFromDay n \<and>
   monthStart (MonthFromDay n) (isLeapYear (YearFromDay n)) + DateFromDay n - 1 = DayWithinYear n"
proof -
  define d where "d = DayWithinYear n"
  define l where "l = isLeapYear (YearFromDay n)"
  have d0: "0 \<le> d" using DayWithinYear_bounds[of n] by (simp add: d_def)
  have M: "MonthFromDay n =
      (if d < 31 then 0 else if d < 59 + (if l then 1 else 0) then 1
       else if d < 90 + (if l then 1 else 0) then 2 else if d < 120 + (if l then 1 else 0) then 3
       else if d < 151 + (if l then 1 else 0) then 4 else if d < 181 + (if l then 1 else 0) then 5
       else if d < 212 + (if l then 1 else 0) then 6 else if d < 243 + (if l then 1 else 0) then 7
       else if d < 273 + (if l then 1 else 0) then 8 else if d < 304 + (if l then 1 else 0) then 9
       else if d < 334 + (if l then 1 else 0) then 10 else 11)"
    by (simp add: MonthFromDay_def Let_def d_def l_def InLeapYear_def)
  consider "MonthFromDay n = 0" | "MonthFromDay n = 1" | "MonthFromDay n = 2" | "MonthFromDay n = 3"
    | "MonthFromDay n = 4" | "MonthFromDay n = 5" | "MonthFromDay n = 6" | "MonthFromDay n = 7"
    | "MonthFromDay n = 8" | "MonthFromDay n = 9" | "MonthFromDay n = 10" | "MonthFromDay n = 11"
    using MonthFromDay_range[of n] month_cases[of "MonthFromDay n"] by blast
  then show ?thesis
  proof cases
    case 1 with M d0 show ?thesis
      by (simp add: DateFromDay_def Let_def monthStart_simps d_def[symmetric] l_def[symmetric] InLeapYear_def split: if_splits)
  next
    case 2 with M d0 show ?thesis
      by (simp add: DateFromDay_def Let_def monthStart_simps d_def[symmetric] l_def[symmetric] InLeapYear_def split: if_splits)
  next
    case 3 with M d0 show ?thesis
      by (simp add: DateFromDay_def Let_def monthStart_simps d_def[symmetric] l_def[symmetric] InLeapYear_def split: if_splits)
  next
    case 4 with M d0 show ?thesis
      by (simp add: DateFromDay_def Let_def monthStart_simps d_def[symmetric] l_def[symmetric] InLeapYear_def split: if_splits)
  next
    case 5 with M d0 show ?thesis
      by (simp add: DateFromDay_def Let_def monthStart_simps d_def[symmetric] l_def[symmetric] InLeapYear_def split: if_splits)
  next
    case 6 with M d0 show ?thesis
      by (simp add: DateFromDay_def Let_def monthStart_simps d_def[symmetric] l_def[symmetric] InLeapYear_def split: if_splits)
  next
    case 7 with M d0 show ?thesis
      by (simp add: DateFromDay_def Let_def monthStart_simps d_def[symmetric] l_def[symmetric] InLeapYear_def split: if_splits)
  next
    case 8 with M d0 show ?thesis
      by (simp add: DateFromDay_def Let_def monthStart_simps d_def[symmetric] l_def[symmetric] InLeapYear_def split: if_splits)
  next
    case 9 with M d0 show ?thesis
      by (simp add: DateFromDay_def Let_def monthStart_simps d_def[symmetric] l_def[symmetric] InLeapYear_def split: if_splits)
  next
    case 10 with M d0 show ?thesis
      by (simp add: DateFromDay_def Let_def monthStart_simps d_def[symmetric] l_def[symmetric] InLeapYear_def split: if_splits)
  next
    case 11 with M d0 show ?thesis
      by (simp add: DateFromDay_def Let_def monthStart_simps d_def[symmetric] l_def[symmetric] InLeapYear_def split: if_splits)
  next
    case 12 with M d0 show ?thesis
      by (simp add: DateFromDay_def Let_def monthStart_simps d_def[symmetric] l_def[symmetric] InLeapYear_def split: if_splits)
  qed
qed

lemma MakeDay_in_range:
  "0 \<le> m \<Longrightarrow> m \<le> 11 \<Longrightarrow>
   MakeDay y m d = DayFromYear y + monthStart m (isLeapYear y) + d - 1"
  by (simp add: MakeDay_def Let_def)

lemma monthStart_nonneg:
  assumes "0 \<le> m" "m \<le> 11" shows "0 \<le> monthStart m l"
  using month_cases[OF assms] by (elim disjE) (simp_all add: monthStart_simps)

lemma MakeDay_inverse:
  assumes m: "0 \<le> m" "m \<le> 11" and d: "1 \<le> d" "d \<le> daysInMonth y (m + 1)"
  shows "YearFromDay (MakeDay y m d) = y \<and> MonthFromDay (MakeDay y m d) = m
         \<and> DateFromDay (MakeDay y m d) = d"
proof -
  define l where "l = isLeapYear y"
  define w where "w = monthStart m l + d - 1"
  have md: "MakeDay y m d = DayFromYear y + w"
    using m by (simp add: MakeDay_in_range w_def l_def)
  have w: "0 \<le> w \<and> w < DaysInYear y"
    using month_cases[OF m] d
    by (elim disjE)
      (simp_all add: w_def l_def monthStart_simps daysInMonth_def DaysInYear_def split: if_splits)
  have yr: "YearFromDay (MakeDay y m d) = y"
    unfolding md using w by (intro YearFromDay_unique) (simp_all add: DayFromYear_step)
  have dwy: "DayWithinYear (MakeDay y m d) = w"
    by (simp add: DayWithinYear_def yr) (simp add: md)
  have leap: "InLeapYear (MakeDay y m d) = (if l then 1 else 0)"
    by (simp add: InLeapYear_def yr l_def)
  have mo: "MonthFromDay (MakeDay y m d) = m"
    unfolding MonthFromDay_def dwy leap Let_def
    using month_cases[OF m] d
    by (elim disjE)
      (simp_all add: w_def l_def monthStart_simps daysInMonth_def split: if_splits)
  have da: "DateFromDay (MakeDay y m d) = d"
    unfolding DateFromDay_def dwy leap mo Let_def
    using month_cases[OF m]
    by (elim disjE) (simp_all add: w_def monthStart_simps)
  from yr mo da show ?thesis by simp
qed

lemma next_day_gt:
  assumes "newDate tz (getFullYear (Day n)) (getMonth (Day n)) (add (getDate (Day n)) (Num 1)) = Day n'"
  shows "n < n'"
proof -
  define y where "y = YearFromDay n"
  define m where "m = MonthFromDay n"
  define d where "d = DateFromDay n"
  have m: "0 \<le> m" "m \<le> 11" using MonthFromDay_range[of n] by (simp_all add: m_def)
  have parts: "1 \<le> d" "monthStart m (isLeapYear y) + d - 1 = DayWithinYear n"
    using month_date_parts[of n] by (simp_all add: d_def m_def y_def)
  have n: "n = DayFromYear y + DayWithinYear n" by (simp add: DayWithinYear_def y_def)
  show ?thesis
  proof (cases "0 \<le> y \<and> y \<le> 99")
    case False
    then have "n' = MakeDay y m (d + 1) + int (tz (MakeDay y m (d + 1)))"
      using assms by (auto simp: y_def[symmetric] m_def[symmetric] d_def[symmetric] Let_def split: if_splits)
    then have "MakeDay y m (d + 1) \<le> n'" by simp
    then have "DayFromYear y + monthStart m (isLeapYear y) + d \<le> n'"
      using m by (simp add: MakeDay_in_range)
    with parts n show ?thesis by simp
  next
    case True
    then have "n' = MakeDay (1900 + y) m (d + 1) + int (tz (MakeDay (1900 + y) m (d + 1)))"
      using assms by (auto simp: y_def[symmetric] m_def[symmetric] d_def[symmetric] Let_def split: if_splits)
    then have "MakeDay (1900 + y) m (d + 1) \<le> n'" by simp
    then have n': "DayFromYear (1900 + y) + monthStart m (isLeapYear (1900 + y)) + d \<le> n'"
      using m by (simp add: MakeDay_in_range)
    have "n < DayFromYear (y + 1)" using YearFromDay_bounds[of n] by (simp add: y_def)
    also have "\<dots> \<le> DayFromYear (1900 + y)" using True by (intro DayFromYear_mono) simp
    finally show ?thesis using n' parts(1) monthStart_nonneg[OF m, of "isLeapYear (1900 + y)"] by simp
  qed
qed

section \<open>Data model\<close>

datatype Status = Open | Done

record Assignment =
  a_id :: string
  a_title :: string
  a_course :: string
  dueDate :: string
  dueTime :: string
  status :: Status
  a_notes :: string
  a_createdAt :: string
  completedAt :: "string option"

record Course =
  c_id :: string
  c_name :: string
  meetingDays :: "string list"
  meetingStartTime :: string
  meetingEndTime :: string

record CalendarEvent =
  e_id :: string
  e_title :: string
  courseId :: string
  e_date :: string
  e_time :: string
  e_notes :: string
  e_createdAt :: string

datatype OverrideKind = no_school | day_schedule

record SchoolOverride =
  o_id :: string
  o_date :: string
  kind :: OverrideKind
  dayOfWeek :: "string option"
  label :: "string option"

text \<open>Truthiness of an optional string: present and not empty.\<close>

fun truthy :: "string option \<Rightarrow> bool" where
  "truthy None = False"
| "truthy (Some s) = (s \<noteq> [])"

section \<open>Sorting with a comparator\<close>

text \<open>
  \<open>Array.prototype.sort\<close> is stable. It is modelled as insertion sort: an element goes
  before the first later element that the comparator does not put in front of it.
  \<open>localeCompare\<close> depends on the platform's collation, so functions that sort by it take
  the collation as the parameter \<open>lc\<close>.
\<close>

fun insertBy :: "('a \<Rightarrow> 'a \<Rightarrow> int) \<Rightarrow> 'a \<Rightarrow> 'a list \<Rightarrow> 'a list" where
  "insertBy cmp x [] = [x]"
| "insertBy cmp x (y # ys) = (if cmp x y \<le> 0 then x # y # ys else y # insertBy cmp x ys)"

fun sortBy :: "('a \<Rightarrow> 'a \<Rightarrow> int) \<Rightarrow> 'a list \<Rightarrow> 'a list" where
  "sortBy cmp [] = []"
| "sortBy cmp (x # xs) = insertBy cmp x (sortBy cmp xs)"

text \<open>Comparison of strings by code units, as a comparator: negative, zero or positive.\<close>

fun codeUnitCompare :: "string \<Rightarrow> string \<Rightarrow> int" where
  "codeUnitCompare [] [] = 0"
| "codeUnitCompare [] (y # ys) = - 1"
| "codeUnitCompare (x # xs) [] = 1"
| "codeUnitCompare (x # xs) (y # ys) =
     (if (of_char x :: nat) < of_char y then - 1
      else if (of_char y :: nat) < of_char x then 1
      else codeUnitCompare xs ys)"

section \<open>Events by date\<close>

text \<open>\<open>a.time || "99:99"\<close>\<close>

definition timeKey :: "CalendarEvent \<Rightarrow> string" where
  "timeKey a = (if e_time a \<noteq> [] then e_time a else ''99:99'')"

definition groupByDate :: "CalendarEvent list \<Rightarrow> (string \<rightharpoonup> CalendarEvent list)" where
  "groupByDate events =
     fold (\<lambda>item m. m(e_date item \<mapsto> (case m (e_date item) of None \<Rightarrow> [] | Some l \<Rightarrow> l) @ [item]))
       events Map.empty"

definition eventsByDate ::
  "(string \<Rightarrow> string \<Rightarrow> int) \<Rightarrow> CalendarEvent list \<Rightarrow> (string \<rightharpoonup> CalendarEvent list)" where
  "eventsByDate lc events =
     (\<lambda>d. map_option (sortBy (\<lambda>a b. lc (timeKey a) (timeKey b))) (groupByDate events d))"

section \<open>Override resolver\<close>

definition overrideByDate :: "SchoolOverride list \<Rightarrow> (string \<rightharpoonup> SchoolOverride)" where
  "overrideByDate overrides = fold (\<lambda>item m. m(o_date item \<mapsto> item)) overrides Map.empty"

text \<open>The result of \<open>scheduleDayForDate\<close>: \<open>null\<close>, \<open>undefined\<close> or a weekday label.\<close>

datatype ScheduleDay = Null | Undefined | Str string

definition scheduleDayForDate :: "SchoolOverride list \<Rightarrow> jsdate \<Rightarrow> ScheduleDay" where
  "scheduleDayForDate overrides date =
     (let iso = toISODate date;
          override = overrideByDate overrides iso
      in if map_option kind override = Some no_school then Null
         else if map_option kind override = Some day_schedule
                 \<and> truthy (Option.bind override dayOfWeek)
              then Str (the (Option.bind override dayOfWeek))
         else (case index DAYS (dayIndex date) of
                 Some w \<Rightarrow> Str w
               | None \<Rightarrow> Undefined))"

section \<open>Day-view agenda\<close>

datatype ItemType = Class | Event


record AllDayItem =
  d_id :: string
  d_label :: string
  d_type :: ItemType

definition selectedDateObj :: "zone \<Rightarrow> string \<Rightarrow> jsdate" where
  "selectedDateObj tz selectedDate =
     (let parts = map toNumber (str_split CHR ''-'' selectedDate);
          year = nth_opt parts 0;
          month = nth_opt parts 1;
          day = nth_opt parts 2
      in newDate tz (toNum year) (sub (toNum month) (Num 1)) (toNum day))"

text \<open>\<open>weekday && course.meetingDays.includes(weekday)\<close>\<close>

fun meetsOn :: "ScheduleDay \<Rightarrow> Course \<Rightarrow> bool" where
  "meetsOn (Str w) course = (w \<noteq> [] \<and> w \<in> set (meetingDays course))"
| "meetsOn _ course = False"

definition recurring :: "ScheduleDay \<Rightarrow> Course list \<Rightarrow> Course list" where
  "recurring weekday classes =
     filter (\<lambda>course. meetsOn weekday course
                       \<and> (meetingStartTime course \<noteq> [] \<or> meetingEndTime course \<noteq> []))
       classes"



definition eventsToday ::
  "(string \<Rightarrow> string \<Rightarrow> int) \<Rightarrow> CalendarEvent list \<Rightarrow> string \<Rightarrow> CalendarEvent list" where
  "eventsToday lc events selectedDate =
     (case eventsByDate lc events selectedDate of Some l \<Rightarrow> l | None \<Rightarrow> [])"


definition allDayClassItem :: "Course \<Rightarrow> AllDayItem" where
  "allDayClassItem course =
     \<lparr> d_id = ''class-all-'' @ c_id course, d_label = c_name course, d_type = Class \<rparr>"

definition allDayEventItem :: "CalendarEvent \<Rightarrow> AllDayItem" where
  "allDayEventItem ev =
     \<lparr> d_id = ''event-all-'' @ e_id ev, d_label = e_title ev, d_type = Event \<rparr>"

definition allDayItems ::
  "(string \<Rightarrow> string \<Rightarrow> int) \<Rightarrow> zone \<Rightarrow> Course list \<Rightarrow> CalendarEvent list
     \<Rightarrow> SchoolOverride list \<Rightarrow> string \<Rightarrow> AllDayItem list" where
  "allDayItems lc tz classes events overrides selectedDate =
     (let weekday = scheduleDayForDate overrides (selectedDateObj tz selectedDate)
      in map allDayClassItem
           (filter (\<lambda>course. meetingStartTime course = [] \<and> meetingEndTime course = [])
              (recurring weekday classes))
         @ map allDayEventItem
             (filter (\<lambda>ev. e_time ev = []) (eventsToday lc events selectedDate)))"


section \<open>Application state and handlers\<close>

text \<open>
  The component's state containers that the handlers below read or write, and the three
  storage keys they persist to (\<open>None\<close>: nothing written yet). A handler is a function from
  state to state; the results of \<open>crypto.randomUUID()\<close> and of the clock, and the host time
  zone where a handler builds dates, are arguments.
\<close>

record Form =
  f_title :: string
  f_course :: string
  f_dueDate :: string
  f_dueTime :: string
  f_notes :: string

definition emptyForm :: Form where
  "emptyForm = \<lparr> f_title = [], f_course = [], f_dueDate = [], f_dueTime = [], f_notes = [] \<rparr>"

record NoSchoolForm =
  startDate :: string
  endDate :: string
  ns_label :: string

record SpecialDayForm =
  sd_date :: string
  sd_dayOfWeek :: string

record App =
  assignments :: "Assignment list"
  classes :: "Course list"
  overrides :: "SchoolOverride list"
  selectedCourse :: "string option"
  form :: Form
  editingId :: "string option"
  editingClassId :: "string option"
  editingClassName :: string
  editingClassDays :: "string list"
  editingClassStartTime :: string
  editingClassEndTime :: string
  noSchoolForm :: NoSchoolForm
  specialDayForm :: SpecialDayForm
  storedAssignments :: "Assignment list option"
  storedClasses :: "Course list option"
  storedOverrides :: "SchoolOverride list option"

text \<open>\<open>toLowerCase\<close> on 8-bit code units: A to Z, and the upper-case letters of Latin-1.\<close>

definition lowerChar :: "char \<Rightarrow> char" where
  "lowerChar c =
     (let n = (of_char c :: nat)
      in if (65 \<le> n \<and> n \<le> 90) \<or> (192 \<le> n \<and> n \<le> 222 \<and> n \<noteq> 215) then char_of (n + 32) else c)"

definition toLowerCase :: "string \<Rightarrow> string" where
  "toLowerCase s = map lowerChar s"

record Counts =
  total :: nat
  n_open :: nat

text \<open>The body of the \<open>forEach\<close> in \<open>courseCounts\<close>.\<close>

definition countStep :: "Assignment \<Rightarrow> (string \<rightharpoonup> Counts) \<Rightarrow> (string \<rightharpoonup> Counts)" where
  "countStep item m =
     (let entry = (case m (a_course item) of Some e \<Rightarrow> e | None \<Rightarrow> \<lparr> total = 0, n_open = 0 \<rparr>)
      in m(a_course item \<mapsto>
             \<lparr> total = total entry + 1,
               n_open = (if status item = Open then n_open entry + 1 else n_open entry) \<rparr>))"

definition courseCounts :: "Assignment list \<Rightarrow> (string \<rightharpoonup> Counts)" where
  "courseCounts as = fold countStep as Map.empty"

definition handleSubmit :: "string \<Rightarrow> string \<Rightarrow> App \<Rightarrow> App" where
  "handleSubmit uuid now s =
     (if trim (f_title (form s)) = [] \<or> trim (f_course (form s)) = []
         \<or> f_dueDate (form s) = [] \<or> f_dueTime (form s) = [] then s
      else if truthy (editingId s) then
        (let updated =
               map (\<lambda>item. if Some (a_id item) = editingId s
                            then item \<lparr> a_title := trim (f_title (form s)),
                                        a_course := trim (f_course (form s)),
                                        dueDate := f_dueDate (form s),
                                        dueTime := f_dueTime (form s),
                                        a_notes := f_notes (form s) \<rparr>
                            else item)
                 (assignments s)
         in s \<lparr> assignments := updated, storedAssignments := Some updated,
                 editingId := None, form := emptyForm \<rparr>)
      else
        (let next = \<lparr> a_id = uuid,
                       a_title = trim (f_title (form s)),
                       a_course = trim (f_course (form s)),
                       dueDate = f_dueDate (form s),
                       dueTime = f_dueTime (form s),
                       status = Open,
                       a_notes = trim (f_notes (form s)),
                       a_createdAt = now,
                       completedAt = None \<rparr>;
             updated = next # assignments s
         in s \<lparr> assignments := updated, storedAssignments := Some updated, form := emptyForm \<rparr>))"

definition handleToggleStatus :: "string \<Rightarrow> string \<Rightarrow> App \<Rightarrow> App" where
  "handleToggleStatus ident now s =
     (let updated =
            map (\<lambda>item. if a_id item = ident
                         then item \<lparr> status := (if status item = Open then Done else Open),
                                     completedAt := (if status item = Open then Some now else None) \<rparr>
                         else item)
              (assignments s)
      in s \<lparr> assignments := updated, storedAssignments := Some updated \<rparr>)"

definition handleDeleteClass :: "Course \<Rightarrow> App \<Rightarrow> App" where
  "handleDeleteClass course s =
     (let counts = courseCounts (assignments s) (c_name course)
      in if (case counts of Some c \<Rightarrow> 0 < total c | None \<Rightarrow> False) then s
         else
           (let updated = filter (\<lambda>item. c_id item \<noteq> c_id course) (classes s)
            in s \<lparr> classes := updated, storedClasses := Some updated,
                    selectedCourse :=
                      (if selectedCourse s = Some (c_name course) then None else selectedCourse s),
                    form :=
                      (if f_course (form s) = c_name course then (form s) \<lparr> f_course := [] \<rparr>
                       else form s) \<rparr>))"

definition handleSaveEditClass :: "(string \<Rightarrow> string \<Rightarrow> int) \<Rightarrow> Course \<Rightarrow> App \<Rightarrow> App" where
  "handleSaveEditClass lc course s =
     (let name = trim (editingClassName s)
      in if name = [] then s
         else if list_ex (\<lambda>item. c_id item \<noteq> c_id course
                                   \<and> toLowerCase (c_name item) = toLowerCase name) (classes s)
         then s
         else
           (let updated =
                  sortBy (\<lambda>a b. lc (c_name a) (c_name b))
                    (map (\<lambda>item. if c_id item = c_id course
                                  then item \<lparr> c_name := name,
                                              meetingDays := editingClassDays s,
                                              meetingStartTime := editingClassStartTime s,
                                              meetingEndTime := editingClassEndTime s \<rparr>
                                  else item)
                       (classes s));
                next = map (\<lambda>assignment. if a_course assignment = c_name course
                                          then assignment \<lparr> a_course := name \<rparr>
                                          else assignment)
                         (assignments s)
            in s \<lparr> classes := updated, storedClasses := Some updated,
                    assignments := next, storedAssignments := Some next,
                    selectedCourse :=
                      (if selectedCourse s = Some (c_name course) then Some name else selectedCourse s),
                    form :=
                      (if f_course (form s) = c_name course then (form s) \<lparr> f_course := name \<rparr>
                       else form s),
                    editingClassId := None, editingClassName := [], editingClassDays := [],
                    editingClassStartTime := [], editingClassEndTime := [] \<rparr>))"

text \<open>
  The loop of \<open>handleAddNoSchool\<close>: one override per day from \<open>day\<close> to \<open>rangeEnd\<close>; \<open>ids\<close>
  gives the successive identifiers.
\<close>

function noSchoolDays ::
  "zone \<Rightarrow> (nat \<Rightarrow> string) \<Rightarrow> string \<Rightarrow> jsdate \<Rightarrow> jsdate \<Rightarrow> nat \<Rightarrow> SchoolOverride list" where
  "noSchoolDays tz ids lbl day rangeEnd i =
     (if dateLe day rangeEnd
      then \<lparr> o_id = ids i, o_date = toISODate day, kind = no_school,
             dayOfWeek = None, label = Some lbl \<rparr>
           # noSchoolDays tz ids lbl
               (newDate tz (getFullYear day) (getMonth day) (add (getDate day) (Num 1))) rangeEnd (i + 1)
      else [])"
  by pat_completeness auto
termination
proof (relation "measure (\<lambda>(tz, ids, lbl, day, rangeEnd, i).
          (case (day, rangeEnd) of (Day a, Day b) \<Rightarrow> nat (b + 1 - a) | _ \<Rightarrow> 0))")
  show "wf (measure (\<lambda>(tz, ids, lbl, day, rangeEnd, i).
          (case (day, rangeEnd) of (Day a, Day b) \<Rightarrow> nat (b + 1 - a) | _ \<Rightarrow> 0)))"
    by simp
next
  fix tz :: zone and ids :: "nat \<Rightarrow> string" and lbl :: string and day rangeEnd :: jsdate
    and i :: nat
  assume le: "dateLe day rangeEnd"
  then obtain a b where ab: "day = Day a" "rangeEnd = Day b" "a \<le> b"
    by (cases day; cases rangeEnd) simp_all
  show "((tz, ids, lbl, newDate tz (getFullYear day) (getMonth day) (add (getDate day) (Num 1)),
          rangeEnd, i + 1),
         (tz, ids, lbl, day, rangeEnd, i))
        \<in> measure (\<lambda>(tz, ids, lbl, day, rangeEnd, i).
             (case (day, rangeEnd) of (Day a, Day b) \<Rightarrow> nat (b + 1 - a) | _ \<Rightarrow> 0))"
  proof (cases "newDate tz (getFullYear day) (getMonth day) (add (getDate day) (Num 1))")
    case InvalidDate
    with ab show ?thesis by simp
  next
    case (Day n')
    with ab have "a < n'" by (intro next_day_gt) simp
    with ab Day show ?thesis by simp
  qed
qed

declare noSchoolDays.simps [simp del]

definition handleAddNoSchool :: "zone \<Rightarrow> (nat \<Rightarrow> string) \<Rightarrow> App \<Rightarrow> App" where
  "handleAddNoSchool tz ids s =
     (if startDate (noSchoolForm s) = [] then s
      else
        (let start = parseLocalDate tz (startDate (noSchoolForm s));
             end = parseLocalDate tz (if endDate (noSchoolForm s) \<noteq> [] then endDate (noSchoolForm s)
                                   else startDate (noSchoolForm s))
         in if start = InvalidDate \<or> end = InvalidDate then s
            else
              (let rangeStart = (if dateLe start end then start else end);
                   rangeEnd = (if dateLe start end then end else start);
                   nextOverrides =
                     noSchoolDays tz ids (trim (ns_label (noSchoolForm s)))
                       (newDate tz (getFullYear rangeStart) (getMonth rangeStart) (getDate rangeStart))
                       rangeEnd 0;
                   updated = nextOverrides @ overrides s
               in s \<lparr> overrides := updated, storedOverrides := Some updated,
                       noSchoolForm := \<lparr> startDate = [], endDate = [], ns_label = [] \<rparr> \<rparr>)))"

definition handleAddSpecialDay :: "string \<Rightarrow> App \<Rightarrow> App" where
  "handleAddSpecialDay uuid s =
     (if sd_date (specialDayForm s) = [] \<or> sd_dayOfWeek (specialDayForm s) = [] then s
      else
        (let next = \<lparr> o_id = uuid, o_date = sd_date (specialDayForm s), kind = day_schedule,
                       dayOfWeek = Some (sd_dayOfWeek (specialDayForm s)), label = None \<rparr>;
             updated = next # overrides s
         in s \<lparr> overrides := updated, storedOverrides := Some updated,
                 specialDayForm := \<lparr> sd_date = [], sd_dayOfWeek = ''Mon'' \<rparr> \<rparr>))"


section \<open>Example data and specification predicates\<close>

definition exampleMath :: Course where
  "exampleMath = \<lparr> c_id = ''c1'', c_name = ''Math'', meetingDays = [''Mon'', ''Wed''],
                    meetingStartTime = ''09:00'', meetingEndTime = ''10:15'' \<rparr>"

definition exampleArt :: Course where
  "exampleArt = \<lparr> c_id = ''c2'', c_name = ''Art'', meetingDays = [''Wed''],
                   meetingStartTime = [], meetingEndTime = [] \<rparr>"

definition exampleHomework :: Assignment where
  "exampleHomework = \<lparr> a_id = ''a1'', a_title = ''Problem set'', a_course = ''Math'',
                        dueDate = ''2024-01-05'', dueTime = ''17:00'', status = Open, a_notes = [],
                        a_createdAt = ''2024-01-01T08:00:00.000Z'', completedAt = None \<rparr>"

definition exampleApp :: App where
  "exampleApp = \<lparr> assignments = [exampleHomework], classes = [exampleArt, exampleMath],
                   overrides = [], selectedCourse = None, form = emptyForm, editingId = None,
                   editingClassId = None, editingClassName = [], editingClassDays = [],
                   editingClassStartTime = [], editingClassEndTime = [],
                   noSchoolForm = \<lparr> startDate = [], endDate = [], ns_label = [] \<rparr>,
                   specialDayForm = \<lparr> sd_date = [], sd_dayOfWeek = ''Mon'' \<rparr>,
                   storedAssignments = None, storedClasses = None, storedOverrides = None \<rparr>"

text \<open>The invariant of an assignment: \<open>completedAt\<close> is present exactly when the status is \<open>Done\<close>.\<close>

definition completedInv :: "Assignment \<Rightarrow> bool" where
  "completedInv a = ((completedAt a \<noteq> None) = (status a = Done))"

text \<open>The number of assignments whose course field is \<open>name\<close>.\<close>

definition refCount :: "Assignment list \<Rightarrow> string \<Rightarrow> nat" where
  "refCount as name = length (filter (\<lambda>a. a_course a = name) as)"

text \<open>A well-formed time of day: two digits, a colon, two digits, hours to 23, minutes to 59.\<close>

fun validTime :: "string \<Rightarrow> bool" where
  "validTime [h1, h2, c, m1, m2] =
     (isDigit h1 \<and> isDigit h2 \<and> c = CHR '':'' \<and> isDigit m1 \<and> isDigit m2
      \<and> 10 * digitVal h1 + digitVal h2 \<le> 23 \<and> 10 * digitVal m1 + digitVal m2 \<le> 59)"
| "validTime _ = False"

text \<open>
  The natural weekday of a day number in the Monday-first convention: day 0, 1 January
  1970, was a Thursday, the label at position 3.
\<close>

definition naturalWeekday :: "int \<Rightarrow> string" where
  "naturalWeekday n = DAYS ! nat ((n + 3) mod 7)"


definition allDayClassCourses :: "ScheduleDay \<Rightarrow> Course list \<Rightarrow> Course list" where
  "allDayClassCourses weekday cs =
     filter (\<lambda>c. meetingStartTime c = [] \<and> meetingEndTime c = []) (recurring weekday cs)"




text \<open>A zone with a fixed offset skips no day; Pacific/Apia skipped day 15338, 30 December 2011.\<close>

definition fixedZone :: zone where
  "fixedZone = (\<lambda>day. 0)"

definition apiaZone :: zone where
  "apiaZone = (\<lambda>day. if day = 15338 then 1 else 0)"

definition exampleIds :: "nat \<Rightarrow> string" where
  "exampleIds i = ''n'' @ natToString i"

definition afterNoSchool :: App where
  "afterNoSchool =
     handleAddNoSchool fixedZone exampleIds
       (exampleApp \<lparr> noSchoolForm := \<lparr> startDate = ''2024-01-03'', endDate = [],
                                        ns_label = ''Snow day'' \<rparr> \<rparr>)"

definition afterSpecialDay :: App where
  "afterSpecialDay =
     handleAddSpecialDay ''o2''
       (afterNoSchool \<lparr> specialDayForm := \<lparr> sd_date = ''2024-01-03'', sd_dayOfWeek = ''Fri'' \<rparr> \<rparr>)"

text \<open>The shape of a sort key of \<open>eventsByDate\<close>: two digits, a colon, two digits.\<close>

fun timeShaped :: "string \<Rightarrow> bool" where
  "timeShaped [h1, h2, c, m1, m2] =
     (isDigit h1 \<and> isDigit h2 \<and> c = CHR '':'' \<and> isDigit m1 \<and> isDigit m2)"
| "timeShaped _ = False"

text \<open>
  The position of an event within its day: the minutes of its time of day, and 1440,
  past the last minute of the day, for an event without a time.
\<close>

definition timeRank :: "CalendarEvent \<Rightarrow> int" where
  "timeRank ev = (case timeToMinutes (e_time ev) of Some (Num n) \<Rightarrow> n | _ \<Rightarrow> 1440)"

definition exampleUntimed :: CalendarEvent where
  "exampleUntimed = \<lparr> e_id = ''e1'', e_title = ''Field trip'', courseId = [], e_date = ''2024-01-03'',
                       e_time = [], e_notes = [], e_createdAt = ''2024-01-01T08:00:00.000Z'' \<rparr>"

definition exampleNine :: CalendarEvent where
  "exampleNine = \<lparr> e_id = ''e2'', e_title = ''Quiz'', courseId = ''c1'', e_date = ''2024-01-03'',
                    e_time = ''09:00'', e_notes = [], e_createdAt = ''2024-01-01T09:00:00.000Z'' \<rparr>"

text \<open>
  A well-formed ISO date: four digits, a dash, two digits, a dash, two digits, naming a
  month from 1 to 12 and a day that the month of that year has.
\<close>

fun validISODate :: "string \<Rightarrow> bool" where
  "validISODate [y1, y2, y3, y4, s1, m1, m2, s2, d1, d2] =
     (isDigit y1 \<and> isDigit y2 \<and> isDigit y3 \<and> isDigit y4 \<and> s1 = CHR ''-''
      \<and> isDigit m1 \<and> isDigit m2 \<and> s2 = CHR ''-'' \<and> isDigit d1 \<and> isDigit d2
      \<and> 1 \<le> 10 * digitVal m1 + digitVal m2 \<and> 10 * digitVal m1 + digitVal m2 \<le> 12
      \<and> 1 \<le> 10 * digitVal d1 + digitVal d2
      \<and> 10 * digitVal d1 + digitVal d2
          \<le> daysInMonth (1000 * digitVal y1 + 100 * digitVal y2 + 10 * digitVal y3 + digitVal y4)
                (10 * digitVal m1 + digitVal m2))"
| "validISODate _ = False"

definition isoYear :: "string \<Rightarrow> int" where
  "isoYear s = decimal (take 4 s)"

text \<open>The civil day that a well-formed ISO date names, as a day number.\<close>

definition isoDay :: "string \<Rightarrow> int" where
  "isoDay s = MakeDay (decimal (take 4 s)) (decimal (take 2 (drop 5 s)) - 1) (decimal (take 2 (drop 8 s)))"

section \<open>Verified claims\<close>

subsection \<open>Digits and times of day\<close>

lemma isDigit_not_space: "isDigit c \<Longrightarrow> \<not> isWhiteSpace c"
  by (auto simp: isDigit_def isWhiteSpace_def)

lemma isDigit_not_colon: "isDigit c \<Longrightarrow> c \<noteq> CHR '':''"
  by (auto simp: isDigit_def)

lemma isDigit_not_dash: "isDigit c \<Longrightarrow> c \<noteq> CHR ''-''"
  by (auto simp: isDigit_def)

lemma digitVal_range: "isDigit c \<Longrightarrow> 0 \<le> digitVal c \<and> digitVal c \<le> 9"
  by (auto simp: isDigit_def digitVal_def)

lemma digitChar_digitVal: "isDigit c \<Longrightarrow> digitChar (nat (digitVal c)) = c"
proof -
  assume "isDigit c"
  then have "48 + nat (digitVal c) = of_char c"
    by (simp add: isDigit_def digitVal_def nat_diff_distrib)
  then show ?thesis by (simp add: digitChar_def)
qed

lemma dropWhile_rev_id: "xs \<noteq> [] \<Longrightarrow> \<not> P (last xs) \<Longrightarrow> dropWhile P (rev xs) = rev xs"
  by (cases xs rule: rev_cases) simp_all

lemma trim_digits:
  assumes "s \<noteq> []" "isDigit (hd s)" "isDigit (last s)"
  shows "trim s = s"
proof -
  from assms have a: "dropWhile isWhiteSpace s = s"
    by (cases s) (simp_all add: isDigit_not_space)
  from assms have "dropWhile isWhiteSpace (rev s) = rev s"
    by (intro dropWhile_rev_id) (simp_all add: isDigit_not_space)
  with a show ?thesis by (simp add: trim_def)
qed

lemma toNumber_2digits:
  "isDigit a \<Longrightarrow> isDigit b \<Longrightarrow> toNumber [a, b] = Num (10 * digitVal a + digitVal b)"
  by (simp add: toNumber_def trim_digits decimal_def)

lemma toNumber_4digits:
  "isDigit a \<Longrightarrow> isDigit b \<Longrightarrow> isDigit c \<Longrightarrow> isDigit d \<Longrightarrow>
   toNumber [a, b, c, d] = Num (1000 * digitVal a + 100 * digitVal b + 10 * digitVal c + digitVal d)"
  by (simp add: toNumber_def trim_digits decimal_def)

lemma timeToMinutes_digits:
  assumes "isDigit a" "isDigit b" "isDigit c" "isDigit d"
  shows "timeToMinutes [a, b, CHR '':'', c, d]
         = Some (Num ((10 * digitVal a + digitVal b) * 60 + (10 * digitVal c + digitVal d)))"
  using assms
  by (simp add: timeToMinutes_def isDigit_not_colon toNumber_2digits nth_opt_def Let_def)

lemma validTime_shape:
  assumes "validTime t"
  obtains a b c d where "t = [a, b, CHR '':'', c, d]" "isDigit a" "isDigit b" "isDigit c" "isDigit d"
    "10 * digitVal a + digitVal b \<le> 23" "10 * digitVal c + digitVal d \<le> 59"
  using assms by (cases t rule: validTime.cases) auto

lemma digitChar_0: "digitChar 0 = CHR ''0''"
  by (simp add: digitChar_def char_of_def bit_0)

lemma natToString_2digits:
  "0 \<le> a \<Longrightarrow> a \<le> 9 \<Longrightarrow> 0 \<le> b \<Longrightarrow> b \<le> 9 \<Longrightarrow>
   padStart 2 CHR ''0'' (natToString (nat (10 * a + b))) = [digitChar (nat a), digitChar (nat b)]"
proof -
  assume h: "0 \<le> a" "a \<le> 9" "0 \<le> b" "b \<le> 9"
  define n where "n = nat (10 * a + b)"
  have n: "n div 10 = nat a" "n mod 10 = nat b"
    using h by (simp_all add: n_def nat_add_distrib nat_mult_distrib)
  show ?thesis
  proof (cases "a = 0")
    case True
    with h have "n < 10" by (simp add: n_def)
    with n True show ?thesis
      unfolding n_def[symmetric] by (simp add: padStart_def digitChar_0 natToString.simps)
  next
    case False
    with h have "\<not> n < 10" by (simp add: n_def)
    moreover have "nat a < 10" using h by simp
    ultimately show ?thesis
      unfolding n_def[symmetric] using n by (simp add: padStart_def natToString.simps)
  qed
qed

lemma minutesToTime_timeToMinutes:
  assumes "validTime t"
  shows "map_option minutesToTime (timeToMinutes t) = Some t"
proof -
  from assms obtain a b c d where t: "t = [a, b, CHR '':'', c, d]"
    and dg: "isDigit a" "isDigit b" "isDigit c" "isDigit d"
    and r: "10 * digitVal a + digitVal b \<le> 23" "10 * digitVal c + digitVal d \<le> 59"
    by (rule validTime_shape)
  define hh where "hh = 10 * digitVal a + digitVal b"
  define mm where "mm = 10 * digitVal c + digitVal d"
  note rg = digitVal_range[OF dg(1)] digitVal_range[OF dg(2)] digitVal_range[OF dg(3)] digitVal_range[OF dg(4)]
  have hm: "0 \<le> hh" "hh \<le> 23" "0 \<le> mm" "mm \<le> 59"
    using r rg by (simp_all add: hh_def mm_def)
  have tm: "timeToMinutes t = Some (Num (hh * 60 + mm))"
    by (simp add: t timeToMinutes_digits dg hh_def mm_def)
  have cl: "clampMinutes (Num (hh * 60 + mm)) = Num (hh * 60 + mm)"
    using hm by simp
  have dv: "(hh * 60 + mm) div 60 = hh" "(hh * 60 + mm) mod 60 = mm" "0 \<le> hh * 60 + mm"
    using hm by simp_all
  have "minutesToTime (Num (hh * 60 + mm))
        = padStart 2 CHR ''0'' (natToString (nat hh)) @ '':'' @ padStart 2 CHR ''0'' (natToString (nat mm))"
    unfolding minutesToTime_def cl Let_def using dv hm by simp
  also have "padStart 2 CHR ''0'' (natToString (nat hh)) = [a, b]"
    unfolding hh_def using rg dg by (simp add: natToString_2digits digitChar_digitVal)
  also have "padStart 2 CHR ''0'' (natToString (nat mm)) = [c, d]"
    unfolding mm_def using rg dg by (simp add: natToString_2digits digitChar_digitVal)
  finally show ?thesis unfolding tm by (simp add: t)
qed

lemma minutesToTime_clamps:
  "minutesToTime (Num m) = minutesToTime (Num (max 0 (min 1439 m)))"
  by (simp add: minutesToTime_def Let_def)

subsection \<open>The override resolver\<close>

lemma overrideByDate_fold:
  fixes f :: "SchoolOverride \<Rightarrow> (string \<rightharpoonup> SchoolOverride) \<Rightarrow> (string \<rightharpoonup> SchoolOverride)"
  defines "f \<equiv> (\<lambda>item m. m(o_date item \<mapsto> item))"
  shows "fold f ovs m k
   = (case filter (\<lambda>ov. o_date ov = k) ovs of [] \<Rightarrow> m k | x # xs \<Rightarrow> Some (last (x # xs)))"
proof (induction ovs arbitrary: m)
  case Nil
  show ?case by simp
next
  case (Cons a ovs)
  have fk: "f a m k = (if o_date a = k then Some a else m k)"
    by (simp add: f_def)
  show ?case by (simp add: Cons.IH fk split: list.splits)
qed

lemma overrideByDate_last:
  "overrideByDate ovs k
   = (if filter (\<lambda>ov. o_date ov = k) ovs = [] then None
      else Some (last (filter (\<lambda>ov. o_date ov = k) ovs)))"
  by (cases "filter (\<lambda>ov. o_date ov = k) ovs") (simp_all add: overrideByDate_def overrideByDate_fold)

lemma dayIndex_Day: "dayIndex (Day n) = Num ((n + 3) mod 7)"
proof -
  define r where "r = (n + 3) mod 7"
  have r: "0 \<le> r" "r < 7" by (simp_all add: r_def)
  have "n + 4 = (n + 3) + 1" by simp
  then have "(n + 4) mod 7 = (r + 1) mod 7" unfolding r_def by (metis mod_add_left_eq)
  then have w: "WeekDay n = (if r = 6 then 0 else r + 1)"
    using r by (simp add: WeekDay_def)
  show ?thesis
    unfolding dayIndex_def getDay.simps w r_def[symmetric] Let_def using r by simp
qed

lemma natural_day: "index DAYS (dayIndex (Day n)) = Some (naturalWeekday n)"
  by (simp add: dayIndex_Day naturalWeekday_def DAYS_def)


lemma toISODate_19725: "toISODate (Day 19725) = ''2024-01-03''"
  by code_simp

lemma selectedDateObj_example: "selectedDateObj fixedZone ''2024-01-03'' = Day 19725"
  by code_simp

lemma parseLocalDate_example: "parseLocalDate fixedZone ''2024-01-03'' = Day 19725"
  by code_simp

lemma naturalWeekday_19725: "naturalWeekday 19725 = ''Wed''"
  by code_simp

lemma schedule_plain_wed: "scheduleDayForDate [] (selectedDateObj fixedZone ''2024-01-03'') = Str ''Wed''"
  by (simp add: selectedDateObj_example scheduleDayForDate_def overrideByDate_def natural_day
        naturalWeekday_19725)



subsection \<open>Which override is used\<close>

lemma overrideByDate_append:
  "overrideByDate (new @ old) k
   = (case overrideByDate old k of Some ov \<Rightarrow> Some ov | None \<Rightarrow> overrideByDate new k)"
  by (simp add: overrideByDate_last)

lemma handleAddSpecialDay_prepends:
  "\<exists>new. overrides (handleAddSpecialDay uuid s) = new @ overrides s"
proof (cases "sd_date (specialDayForm s) = [] \<or> sd_dayOfWeek (specialDayForm s) = []")
  case True
  then have "overrides (handleAddSpecialDay uuid s) = [] @ overrides s"
    by (simp add: handleAddSpecialDay_def)
  then show ?thesis by blast
next
  case False
  then have "overrides (handleAddSpecialDay uuid s)
     = [\<lparr> o_id = uuid, o_date = sd_date (specialDayForm s), kind = day_schedule,
          dayOfWeek = Some (sd_dayOfWeek (specialDayForm s)), label = None \<rparr>] @ overrides s"
    by (simp add: handleAddSpecialDay_def Let_def)
  then show ?thesis by blast
qed

lemma handleAddNoSchool_prepends:
  "\<exists>new. overrides (handleAddNoSchool tz ids s) = new @ overrides s"
proof -
  have "overrides (handleAddNoSchool tz ids s) = [] @ overrides s
        \<or> (\<exists>l d e. overrides (handleAddNoSchool tz ids s) = noSchoolDays tz ids l d e 0 @ overrides s)"
    by (auto simp: handleAddNoSchool_def Let_def)
  then show ?thesis by blast
qed

text \<open>
  Claim C2, amended. The table keeps, for each date, the record that stands last in the
  overrides list. Both add operations prepend, so a date that already has an override
  keeps it: the record written first is the one used.
\<close>

theorem C2_first_override_wins:
  "overrideByDate ovs k
     = (if filter (\<lambda>ov. o_date ov = k) ovs = [] then None
        else Some (last (filter (\<lambda>ov. o_date ov = k) ovs)))
   \<and> (\<exists>new. overrides (handleAddSpecialDay uuid s) = new @ overrides s)
   \<and> (\<exists>new. overrides (handleAddNoSchool tz ids s) = new @ overrides s)
   \<and> (overrideByDate (overrides s) k = Some ov
      \<longrightarrow> overrideByDate (overrides (handleAddSpecialDay uuid s)) k = Some ov
          \<and> overrideByDate (overrides (handleAddNoSchool tz ids s)) k = Some ov)"
proof (intro conjI impI)
  show "overrideByDate ovs k
     = (if filter (\<lambda>ov. o_date ov = k) ovs = [] then None
        else Some (last (filter (\<lambda>ov. o_date ov = k) ovs)))"
    by (rule overrideByDate_last)
  show "\<exists>new. overrides (handleAddSpecialDay uuid s) = new @ overrides s"
    by (rule handleAddSpecialDay_prepends)
  show "\<exists>new. overrides (handleAddNoSchool tz ids s) = new @ overrides s"
    by (rule handleAddNoSchool_prepends)
  assume h: "overrideByDate (overrides s) k = Some ov"
  from handleAddSpecialDay_prepends[of uuid s] obtain n1
    where "overrides (handleAddSpecialDay uuid s) = n1 @ overrides s" by blast
  with h show "overrideByDate (overrides (handleAddSpecialDay uuid s)) k = Some ov"
    by (simp add: overrideByDate_append)
  from handleAddNoSchool_prepends[of tz ids s] obtain n2
    where "overrides (handleAddNoSchool tz ids s) = n2 @ overrides s" by blast
  with h show "overrideByDate (overrides (handleAddNoSchool tz ids s)) k = Some ov"
    by (simp add: overrideByDate_append)
qed

lemma afterNoSchool_overrides:
  "overrides afterNoSchool
   = [\<lparr> o_id = ''n0'', o_date = ''2024-01-03'', kind = no_school, dayOfWeek = None,
        label = Some ''Snow day'' \<rparr>]"
  by code_simp

text \<open>
  The claim as stated fails: after a no-school day and then a special day are added for
  the same date, the resolver still uses the no-school record.
\<close>

theorem C2_last_write_counterexample:
  "map o_id (overrides afterSpecialDay) = [''o2'', ''n0'']
   \<and> map o_date (overrides afterSpecialDay) = [''2024-01-03'', ''2024-01-03'']
   \<and> map kind (overrides afterSpecialDay) = [day_schedule, no_school]
   \<and> map_option o_id (overrideByDate (overrides afterSpecialDay) ''2024-01-03'') = Some ''n0''
   \<and> scheduleDayForDate (overrides afterSpecialDay) (parseLocalDate fixedZone ''2024-01-03'') = Null"
  by (simp add: afterSpecialDay_def handleAddSpecialDay_def afterNoSchool_overrides Let_def
        overrideByDate_def scheduleDayForDate_def parseLocalDate_example toISODate_19725)

theorem C2_first_override_wins_witness:
  "map_option o_id (overrideByDate (overrides afterSpecialDay) ''2024-01-03'') = Some ''n0''"
proof -
  let ?s = "afterNoSchool \<lparr> specialDayForm := \<lparr> sd_date = ''2024-01-03'', sd_dayOfWeek = ''Fri'' \<rparr> \<rparr>"
  let ?ov = "\<lparr> o_id = ''n0'', o_date = ''2024-01-03'', kind = no_school, dayOfWeek = None,
        label = Some ''Snow day'' \<rparr>"
  have h: "overrideByDate (overrides ?s) ''2024-01-03'' = Some ?ov"
    by (simp add: afterNoSchool_overrides overrideByDate_def)
  from h C2_first_override_wins[of "[]" "''2024-01-03''" "''o2''" ?s fixedZone exampleIds ?ov]
  have "overrideByDate (overrides (handleAddSpecialDay ''o2'' ?s)) ''2024-01-03'' = Some ?ov"
    by blast
  then show ?thesis by (simp add: afterSpecialDay_def)
qed

subsection \<open>Class items of the day view\<close>

lemma allDayClassCourses_empty: "allDayClassCourses weekday cs = []"
  by (simp add: allDayClassCourses_def recurring_def filter_empty_conv)


lemma allDay_class_items:
  "filter (\<lambda>it. d_type it = Class) (allDayItems lc tz cs evs ovs d)
   = map allDayClassItem (allDayClassCourses (scheduleDayForDate ovs (selectedDateObj tz d)) cs)"
proof -
  have a: "filter (\<lambda>it. d_type it = Class) (map allDayEventItem es) = []" for es
    by (simp add: filter_empty_conv allDayEventItem_def)
  have b: "filter (\<lambda>it. d_type it = Class) (map allDayClassItem xs) = map allDayClassItem xs" for xs
    by (induction xs) (simp_all add: allDayClassItem_def)
  show ?thesis
    by (simp add: allDayItems_def Let_def a b allDayClassCourses_def)
qed









text \<open>
  Claim C4. The all-day class items are taken from \<open>recurring\<close>, which keeps only courses
  with a start or an end time, so a course with neither never yields one (lemma
  \<open>allDayClassCourses_empty\<close>). Here a course without times that meets on Wednesday has
  no all-day item on a Wednesday, and no agenda has an all-day class item at all.
\<close>

theorem C4_no_all_day_class_item:
  "scheduleDayForDate [] (selectedDateObj fixedZone ''2024-01-03'') = Str ''Wed''
   \<and> ''Wed'' \<in> set (meetingDays exampleArt)
   \<and> meetingStartTime exampleArt = [] \<and> meetingEndTime exampleArt = []
   \<and> allDayItems codeUnitCompare fixedZone [exampleArt] [] [] ''2024-01-03'' = []
   \<and> filter (\<lambda>it. d_type it = Class) (allDayItems lc tz cs evs ovs d) = []"
proof -
  have "allDayItems codeUnitCompare fixedZone [exampleArt] [] [] ''2024-01-03'' = []"
    by (simp add: schedule_plain_wed allDayItems_def recurring_def exampleArt_def
          eventsToday_def eventsByDate_def groupByDate_def)
  moreover have "filter (\<lambda>it. d_type it = Class) (allDayItems lc tz cs evs ovs d) = []"
    by (simp add: allDay_class_items allDayClassCourses_empty)
  ultimately show ?thesis
    by (simp add: schedule_plain_wed exampleArt_def)
qed

subsection \<open>The date round trip\<close>

lemma validISODate_shape:
  assumes "validISODate s"
  obtains y1 y2 y3 y4 m1 m2 d1 d2 where
    "s = [y1, y2, y3, y4, CHR ''-'', m1, m2, CHR ''-'', d1, d2]"
    "isDigit y1" "isDigit y2" "isDigit y3" "isDigit y4"
    "isDigit m1" "isDigit m2" "isDigit d1" "isDigit d2"
    "1 \<le> 10 * digitVal m1 + digitVal m2" "10 * digitVal m1 + digitVal m2 \<le> 12"
    "1 \<le> 10 * digitVal d1 + digitVal d2"
    "10 * digitVal d1 + digitVal d2
          \<le> daysInMonth (1000 * digitVal y1 + 100 * digitVal y2 + 10 * digitVal y3 + digitVal y4)
                (10 * digitVal m1 + digitVal m2)"
  using assms by (cases s rule: validISODate.cases) auto

lemma split_date:
  assumes "isDigit y1" "isDigit y2" "isDigit y3" "isDigit y4"
    "isDigit m1" "isDigit m2" "isDigit d1" "isDigit d2"
  shows "str_split CHR ''-'' [y1, y2, y3, y4, CHR ''-'', m1, m2, CHR ''-'', d1, d2]
         = [[y1, y2, y3, y4], [m1, m2], [d1, d2]]"
  using assms by (simp add: isDigit_not_dash)

lemma natToString_4digits:
  assumes "1 \<le> a" "a \<le> 9" "0 \<le> b" "b \<le> 9" "0 \<le> c" "c \<le> 9" "0 \<le> d" "d \<le> 9"
  shows "natToString (nat (1000 * a + 100 * b + 10 * c + d))
         = [digitChar (nat a), digitChar (nat b), digitChar (nat c), digitChar (nat d)]"
proof -
  define n where "n = nat (1000 * a + 100 * b + 10 * c + d)"
  define n1 where "n1 = nat (100 * a + 10 * b + c)"
  define n2 where "n2 = nat (10 * a + b)"
  have e1: "n = 10 * n1 + nat d" and e2: "n1 = 10 * n2 + nat c" and e3: "n2 = 10 * nat a + nat b"
    using assms by (simp_all add: n_def n1_def n2_def nat_add_distrib nat_mult_distrib)
  have lt: "nat a < 10" "nat b < 10" "nat c < 10" "nat d < 10" "0 < nat a"
    using assms by simp_all
  have pos: "0 < n2" "0 < n1" using lt e2 e3 by simp_all
  have s1: "n div 10 = n1" "n mod 10 = nat d" "\<not> n < 10"
    using lt(4) pos(2) by (simp_all add: e1)
  have s2: "n1 div 10 = n2" "n1 mod 10 = nat c" "\<not> n1 < 10"
    using lt(3) pos(1) by (simp_all add: e2)
  have s3: "n2 div 10 = nat a" "n2 mod 10 = nat b" "\<not> n2 < 10" "nat a < 10"
    using lt(1,2,5) by (simp_all add: e3)
  have "natToString n = natToString n1 @ [digitChar (nat d)]"
    using s1 by (subst natToString.simps) simp
  also have "natToString n1 = natToString n2 @ [digitChar (nat c)]"
    using s2 by (subst natToString.simps) simp
  also have "natToString n2 = natToString (nat a) @ [digitChar (nat b)]"
    using s3 by (subst natToString.simps) simp
  also have "natToString (nat a) = [digitChar (nat a)]"
    using s3 by (subst natToString.simps) simp
  finally show ?thesis by (simp add: n_def)
qed

lemma isoYear_digits:
  "isoYear (y1 # y2 # y3 # y4 # rest)
   = 1000 * digitVal y1 + 100 * digitVal y2 + 10 * digitVal y3 + digitVal y4"
  by (simp add: isoYear_def decimal_def)

lemma DayFromYear_1000: "DayFromYear 1000 = - 354285"
  by (simp add: DayFromYear_def)

lemma DayFromYear_10000: "DayFromYear 10000 = 2932897"
  by (simp add: DayFromYear_def)

lemma four_digit_year_day:
  assumes "1000 \<le> YearFromDay n" "YearFromDay n \<le> 9999"
  shows "\<bar>n\<bar> \<le> 100000000"
proof -
  have "DayFromYear 1000 \<le> DayFromYear (YearFromDay n)"
    using assms by (intro DayFromYear_mono) simp
  then have lo: "- 354285 \<le> DayFromYear (YearFromDay n)" by (simp add: DayFromYear_1000)
  have "DayFromYear (YearFromDay n + 1) \<le> DayFromYear 10000"
    using assms by (intro DayFromYear_mono) simp
  then have hi: "DayFromYear (YearFromDay n + 1) \<le> 2932897" by (simp add: DayFromYear_10000)
  from lo hi YearFromDay_bounds[of n] show ?thesis by linarith
qed

lemma isoDay_digits:
  "isoDay [y1, y2, y3, y4, s1, m1, m2, s2, d1, d2]
   = MakeDay (1000 * digitVal y1 + 100 * digitVal y2 + 10 * digitVal y3 + digitVal y4)
       (10 * digitVal m1 + digitVal m2 - 1) (10 * digitVal d1 + digitVal d2)"
  by (simp add: isoDay_def decimal_def)

text \<open>
  Claim C5, amended. For every well-formed date string of a valid calendar date whose
  year is at least 1000 and whose day the host time zone does not skip, formatting the
  parsed date gives the string back.
\<close>

theorem C5_date_round_trip:
  assumes v: "validISODate s" and y: "1000 \<le> isoYear s" and z: "tz (isoDay s) = 0"
  shows "toISODate (parseLocalDate tz s) = s"
proof -
  from v obtain y1 y2 y3 y4 m1 m2 d1 d2 where
    s: "s = [y1, y2, y3, y4, CHR ''-'', m1, m2, CHR ''-'', d1, d2]"
    and dy: "isDigit y1" "isDigit y2" "isDigit y3" "isDigit y4"
    and dm: "isDigit m1" "isDigit m2" and dd: "isDigit d1" "isDigit d2"
    and rm: "1 \<le> 10 * digitVal m1 + digitVal m2" "10 * digitVal m1 + digitVal m2 \<le> 12"
    and rd: "1 \<le> 10 * digitVal d1 + digitVal d2"
      "10 * digitVal d1 + digitVal d2
          \<le> daysInMonth (1000 * digitVal y1 + 100 * digitVal y2 + 10 * digitVal y3 + digitVal y4)
                (10 * digitVal m1 + digitVal m2)"
    by (rule validISODate_shape)
  define Y where "Y = 1000 * digitVal y1 + 100 * digitVal y2 + 10 * digitVal y3 + digitVal y4"
  define M where "M = 10 * digitVal m1 + digitVal m2"
  define D where "D = 10 * digitVal d1 + digitVal d2"
  note ry = digitVal_range[OF dy(1)] digitVal_range[OF dy(2)] digitVal_range[OF dy(3)] digitVal_range[OF dy(4)]
  note rmd = digitVal_range[OF dm(1)] digitVal_range[OF dm(2)] digitVal_range[OF dd(1)] digitVal_range[OF dd(2)]
  have Y: "1000 \<le> Y" "Y \<le> 9999"
    using y ry by (simp_all add: s isoYear_digits Y_def)
  have y1: "1 \<le> digitVal y1" using Y ry by (simp add: Y_def)
  have parse: "parseLocalDate tz s = newDate tz (Num Y) (Num (M - 1)) (Num D)"
    unfolding s parseLocalDate_def split_date[OF dy dm dd]
    by (simp add: nth_opt_def toNumber_4digits[OF dy] toNumber_2digits[OF dm] toNumber_2digits[OF dd]
          Y_def M_def D_def)
  define n where "n = MakeDay Y (M - 1) D"
  have stays: "tz n = 0"
    using z by (simp add: s isoDay_digits n_def Y_def M_def D_def)
  have inv: "YearFromDay n = Y \<and> MonthFromDay n = M - 1 \<and> DateFromDay n = D"
    unfolding n_def using rm rd by (intro MakeDay_inverse) (simp_all add: M_def D_def Y_def)
  have "\<bar>n\<bar> \<le> 100000000" using inv Y by (intro four_digit_year_day) simp_all
  then have date: "parseLocalDate tz s = Day n"
    using Y stays by (simp add: parse n_def[symmetric] Let_def)
  have ys: "numToString (Num Y) = [y1, y2, y3, y4]"
    using Y y1 ry dy by (simp add: Y_def natToString_4digits digitChar_digitVal)
  have ms: "padStart 2 CHR ''0'' (numToString (Num M)) = [m1, m2]"
    using rm rmd dm by (simp add: M_def natToString_2digits digitChar_digitVal)
  have ds: "padStart 2 CHR ''0'' (numToString (Num D)) = [d1, d2]"
    using rd rmd dd by (simp add: D_def natToString_2digits digitChar_digitVal)
  have "toISODate (Day n)
        = numToString (Num Y) @ ''-'' @ padStart 2 CHR ''0'' (numToString (Num M))
            @ ''-'' @ padStart 2 CHR ''0'' (numToString (Num D))"
    by (simp add: toISODate_def Let_def inv)
  then show ?thesis
    unfolding date ys ms ds by (simp add: s)
qed

text \<open>
  The claim as stated fails below the year 1000, in every zone: the year is written
  without padding, and a year from 0 to 99 is read as 1900 plus the year. It also fails
  on a day that the host zone skips: in Pacific/Apia, 30 December 2011 comes back as the
  31st.
\<close>

theorem C5_early_year_counterexample:
  "validISODate ''0500-06-15''
   \<and> toISODate (parseLocalDate fixedZone ''0500-06-15'') = ''500-06-15''
   \<and> validISODate ''0099-01-01''
   \<and> toISODate (parseLocalDate fixedZone ''0099-01-01'') = ''1999-01-01''
   \<and> validISODate ''2011-12-30'' \<and> isoDay ''2011-12-30'' = 15338
   \<and> toISODate (parseLocalDate apiaZone ''2011-12-30'') = ''2011-12-31''"
  by code_simp

theorem C5_date_round_trip_witness:
  "toISODate (parseLocalDate apiaZone ''2024-02-29'') = ''2024-02-29''"
proof -
  have v: "validISODate ''2024-02-29''" by code_simp
  have y: "1000 \<le> isoYear ''2024-02-29''" by code_simp
  have z: "apiaZone (isoDay ''2024-02-29'') = 0" by code_simp
  from C5_date_round_trip[of "''2024-02-29''" apiaZone, OF v y z] show ?thesis .
qed

subsection \<open>A time of day without minutes\<close>

text \<open>
  Claim C6. The round trip on well-formed times and the clamp hold (lemmas
  \<open>minutesToTime_timeToMinutes\<close> and \<open>minutesToTime_clamps\<close>), but \<open>timeToMinutes\<close> does not
  return \<open>null\<close> on every unparseable input: on a string without a colon the minutes are
  \<open>undefined\<close>, which \<open>Number.isNaN\<close> lets through, and the result is \<open>NaN\<close>.
\<close>

theorem C6_missing_minutes_not_null: "timeToMinutes ''12'' = Some NaN"
  by code_simp

subsection \<open>Events of a day, sorted\<close>

lemma groupByDate_fold:
  fixes f :: "CalendarEvent \<Rightarrow> (string \<rightharpoonup> CalendarEvent list) \<Rightarrow> (string \<rightharpoonup> CalendarEvent list)"
  defines "f \<equiv> (\<lambda>item m. m(e_date item \<mapsto> (case m (e_date item) of None \<Rightarrow> [] | Some l \<Rightarrow> l) @ [item]))"
  shows "fold f evs m d
   = (if filter (\<lambda>ev. e_date ev = d) evs = [] then m d
      else Some ((case m d of None \<Rightarrow> [] | Some l \<Rightarrow> l) @ filter (\<lambda>ev. e_date ev = d) evs))"
proof (induction evs arbitrary: m)
  case Nil
  show ?case by simp
next
  case (Cons a evs)
  have fd: "f a m d = (if e_date a = d then Some ((case m d of None \<Rightarrow> [] | Some l \<Rightarrow> l) @ [a]) else m d)"
    by (simp add: f_def)
  show ?case by (simp add: Cons.IH fd)
qed

lemma groupByDate_filter:
  "groupByDate evs d
   = (if filter (\<lambda>ev. e_date ev = d) evs = [] then None
      else Some (filter (\<lambda>ev. e_date ev = d) evs))"
  by (simp add: groupByDate_def groupByDate_fold)

lemma mset_insertBy: "mset (insertBy cmp x ys) = add_mset x (mset ys)"
  by (induction ys) simp_all

lemma mset_sortBy: "mset (sortBy cmp xs) = mset xs"
  by (induction xs) (simp_all add: mset_insertBy)

lemma set_insertBy: "set (insertBy cmp x ys) = insert x (set ys)"
  by (induction ys) auto

lemma set_sortBy: "set (sortBy cmp xs) = set xs"
  by (induction xs) (simp_all add: set_insertBy)

lemma sorted_insertBy:
  fixes r :: "'a \<Rightarrow> int"
  assumes "sorted_wrt (\<lambda>a b. r a \<le> r b) ys"
    and "\<forall>b \<in> set ys. (cmp x b \<le> 0) = (r x \<le> r b)"
  shows "sorted_wrt (\<lambda>a b. r a \<le> r b) (insertBy cmp x ys)"
  using assms
proof (induction ys)
  case Nil
  show ?case by simp
next
  case (Cons y ys)
  show ?case
  proof (cases "cmp x y \<le> 0")
    case True
    with Cons.prems have "r x \<le> r y" by simp
    moreover from Cons.prems have "\<forall>b \<in> set ys. r y \<le> r b" by simp
    ultimately have "\<forall>b \<in> set (y # ys). r x \<le> r b" by fastforce
    with True Cons.prems(1) show ?thesis by simp
  next
    case False
    with Cons.prems have yx: "r y \<le> r x" by simp
    from Cons have "sorted_wrt (\<lambda>a b. r a \<le> r b) (insertBy cmp x ys)" by simp
    with False yx Cons.prems(1) show ?thesis by (simp add: set_insertBy)
  qed
qed

lemma sorted_sortBy:
  fixes r :: "'a \<Rightarrow> int"
  assumes "\<forall>a \<in> set xs. \<forall>b \<in> set xs. (cmp a b \<le> 0) = (r a \<le> r b)"
  shows "sorted_wrt (\<lambda>a b. r a \<le> r b) (sortBy cmp xs)"
  using assms
proof (induction xs)
  case Nil
  show ?case by simp
next
  case (Cons x xs)
  then have "sorted_wrt (\<lambda>a b. r a \<le> r b) (sortBy cmp xs)" by simp
  moreover from Cons.prems have "\<forall>b \<in> set (sortBy cmp xs). (cmp x b \<le> 0) = (r x \<le> r b)"
    by (simp add: set_sortBy)
  ultimately show ?case by (simp add: sorted_insertBy)
qed

lemma of_char_less_digitVal:
  "((of_char x :: nat) < of_char y) = (digitVal x < digitVal y)"
  by (simp add: digitVal_def)

lemma validTime_timeShaped: "validTime t \<Longrightarrow> timeShaped t"
  by (cases t rule: validTime.cases) simp_all

lemma timeShaped_sentinel: "timeShaped ''99:99''"
  by (simp add: isDigit_def)

lemma sentinel_greater:
  assumes "validTime t"
  shows "codeUnitCompare t ''99:99'' < 0 \<and> 0 < codeUnitCompare ''99:99'' t"
proof -
  from assms obtain a b c d where t: "t = [a, b, CHR '':'', c, d]"
    and dg: "isDigit a" "isDigit b"
    and r: "10 * digitVal a + digitVal b \<le> 23"
    by (rule validTime_shape)
  from r digitVal_range[OF dg(1)] digitVal_range[OF dg(2)] have "digitVal a < 9" by simp
  then have "(of_char a :: nat) < 57" by (simp add: digitVal_def)
  then show ?thesis by (simp add: t)
qed

lemma valid_compare:
  assumes "validTime s" "validTime t"
  shows "\<exists>m n. timeToMinutes s = Some (Num m) \<and> timeToMinutes t = Some (Num n)
           \<and> 0 \<le> m \<and> m \<le> 1439 \<and> 0 \<le> n \<and> n \<le> 1439
           \<and> (codeUnitCompare s t \<le> 0) = (m \<le> n)"
proof -
  from assms(1) obtain a b c d where s: "s = [a, b, CHR '':'', c, d]"
    and ds: "isDigit a" "isDigit b" "isDigit c" "isDigit d"
    and rs: "10 * digitVal a + digitVal b \<le> 23" "10 * digitVal c + digitVal d \<le> 59"
    by (rule validTime_shape)
  from assms(2) obtain a' b' c' d' where t: "t = [a', b', CHR '':'', c', d']"
    and dt: "isDigit a'" "isDigit b'" "isDigit c'" "isDigit d'"
    and rt: "10 * digitVal a' + digitVal b' \<le> 23" "10 * digitVal c' + digitVal d' \<le> 59"
    by (rule validTime_shape)
  define p q u v where "p = digitVal a" and "q = digitVal b" and "u = digitVal c" and "v = digitVal d"
  define p' q' u' v' where "p' = digitVal a'" and "q' = digitVal b'" and "u' = digitVal c'" and "v' = digitVal d'"
  have bs: "0 \<le> p" "p \<le> 9" "0 \<le> q" "q \<le> 9" "0 \<le> u" "u \<le> 9" "0 \<le> v" "v \<le> 9"
    using digitVal_range[OF ds(1)] digitVal_range[OF ds(2)] digitVal_range[OF ds(3)] digitVal_range[OF ds(4)]
    by (simp_all add: p_def q_def u_def v_def)
  have bt: "0 \<le> p'" "p' \<le> 9" "0 \<le> q'" "q' \<le> 9" "0 \<le> u'" "u' \<le> 9" "0 \<le> v'" "v' \<le> 9"
    using digitVal_range[OF dt(1)] digitVal_range[OF dt(2)] digitVal_range[OF dt(3)] digitVal_range[OF dt(4)]
    by (simp_all add: p'_def q'_def u'_def v'_def)
  have rs': "10 * p + q \<le> 23" "10 * u + v \<le> 59" using rs by (simp_all add: p_def q_def u_def v_def)
  have rt': "10 * p' + q' \<le> 23" "10 * u' + v' \<le> 59" using rt by (simp_all add: p'_def q'_def u'_def v'_def)
  have ms: "timeToMinutes s = Some (Num ((10 * p + q) * 60 + (10 * u + v)))"
    unfolding s p_def q_def u_def v_def by (rule timeToMinutes_digits[OF ds])
  have mt: "timeToMinutes t = Some (Num ((10 * p' + q') * 60 + (10 * u' + v')))"
    unfolding t p'_def q'_def u'_def v'_def by (rule timeToMinutes_digits[OF dt])
  have cmp: "codeUnitCompare s t =
      (if p < p' then - 1 else if p' < p then 1
       else if q < q' then - 1 else if q' < q then 1
       else if u < u' then - 1 else if u' < u then 1
       else if v < v' then - 1 else if v' < v then 1 else 0)"
    by (simp add: s t of_char_less_digitVal p_def q_def u_def v_def p'_def q'_def u'_def v'_def)
  have le: "(codeUnitCompare s t \<le> 0)
      = ((10 * p + q) * 60 + (10 * u + v) \<le> (10 * p' + q') * 60 + (10 * u' + v'))"
    unfolding cmp using bs bt rs' rt' by (auto split: if_splits)
  show ?thesis
    using ms mt le bs bt rs' rt' by simp
qed

lemma timeRank_untimed: "e_time ev = [] \<Longrightarrow> timeRank ev = 1440"
  by (simp add: timeRank_def timeToMinutes_def)

lemma timeKey_untimed: "e_time ev = [] \<Longrightarrow> timeKey ev = ''99:99''"
  by (simp add: timeKey_def)

lemma timeKey_timed: "validTime (e_time ev) \<Longrightarrow> timeKey ev = e_time ev"
  by (auto simp: timeKey_def)

lemma timeRank_timed:
  assumes "validTime (e_time ev)"
  shows "\<exists>m. timeToMinutes (e_time ev) = Some (Num m) \<and> timeRank ev = m \<and> 0 \<le> m \<and> m \<le> 1439"
  using valid_compare[OF assms assms] by (auto simp: timeRank_def)

lemma key_rank:
  assumes lc: "\<forall>s t. timeShaped s \<and> timeShaped t \<longrightarrow> (lc s t \<le> 0) = (codeUnitCompare s t \<le> 0)"
    and a: "e_time a = [] \<or> validTime (e_time a)"
    and b: "e_time b = [] \<or> validTime (e_time b)"
  shows "(lc (timeKey a) (timeKey b) \<le> 0) = (timeRank a \<le> timeRank b)"
proof -
  have sa: "timeShaped (timeKey a)"
    using a timeShaped_sentinel by (auto simp: timeKey_untimed timeKey_timed validTime_timeShaped)
  have sb: "timeShaped (timeKey b)"
    using b timeShaped_sentinel by (auto simp: timeKey_untimed timeKey_timed validTime_timeShaped)
  from lc sa sb have eq: "(lc (timeKey a) (timeKey b) \<le> 0) = (codeUnitCompare (timeKey a) (timeKey b) \<le> 0)"
    by blast
  show ?thesis
  proof (cases "e_time a = []")
    case ua: True
    show ?thesis
    proof (cases "e_time b = []")
      case True
      with ua show ?thesis
        unfolding eq by (simp add: timeKey_untimed timeRank_untimed)
    next
      case False
      with b have vb: "validTime (e_time b)" by simp
      from timeRank_timed[OF vb] have "timeRank b < 1440" by auto
      moreover from sentinel_greater[OF vb] have "\<not> codeUnitCompare ''99:99'' (e_time b) \<le> 0" by simp
      ultimately show ?thesis
        unfolding eq using ua vb by (simp add: timeKey_untimed timeKey_timed timeRank_untimed)
    qed
  next
    case False
    with a have va: "validTime (e_time a)" by simp
    show ?thesis
    proof (cases "e_time b = []")
      case True
      from timeRank_timed[OF va] have "timeRank a \<le> 1440" by auto
      moreover from sentinel_greater[OF va] have "codeUnitCompare (e_time a) ''99:99'' \<le> 0" by simp
      ultimately show ?thesis
        unfolding eq using True va by (simp add: timeKey_untimed timeKey_timed timeRank_untimed)
    next
      case False
      with b have vb: "validTime (e_time b)" by simp
      from valid_compare[OF va vb] show ?thesis
        unfolding eq using va vb by (auto simp: timeKey_timed timeRank_def)
    qed
  qed
qed

lemma eventsToday_sortBy:
  "eventsToday lc evs d
   = sortBy (\<lambda>a b. lc (timeKey a) (timeKey b)) (filter (\<lambda>ev. e_date ev = d) evs)"
  by (simp add: eventsToday_def eventsByDate_def groupByDate_filter)

text \<open>
  Claim C7. Where the collation orders the sort keys as their code units do, and the
  events of the date carry a well-formed time or none, the list for a date holds exactly
  the events of that date, ordered by time of day, every event without a time after
  every event with one; the sentinel key is greater than every well-formed time.
\<close>

theorem C7_events_sorted_by_time:
  assumes lc: "\<forall>s t. timeShaped s \<and> timeShaped t \<longrightarrow> (lc s t \<le> 0) = (codeUnitCompare s t \<le> 0)"
    and wf: "\<forall>ev \<in> set evs. e_date ev = d \<longrightarrow> e_time ev = [] \<or> validTime (e_time ev)"
  shows "sorted_wrt (\<lambda>a b. timeRank a \<le> timeRank b) (eventsToday lc evs d)
       \<and> mset (eventsToday lc evs d) = mset (filter (\<lambda>ev. e_date ev = d) evs)
       \<and> (\<forall>i j. i < length (eventsToday lc evs d) \<and> j < length (eventsToday lc evs d)
                \<and> e_time (eventsToday lc evs d ! i) \<noteq> [] \<and> e_time (eventsToday lc evs d ! j) = []
              \<longrightarrow> i < j)
       \<and> (\<forall>t. validTime t \<longrightarrow> codeUnitCompare t ''99:99'' < 0)"
proof (intro conjI allI impI)
  let ?l = "filter (\<lambda>ev. e_date ev = d) evs"
  let ?res = "eventsToday lc evs d"
  have ok: "\<forall>ev \<in> set ?l. e_time ev = [] \<or> validTime (e_time ev)" using wf by simp
  have "\<forall>a \<in> set ?l. \<forall>b \<in> set ?l. (lc (timeKey a) (timeKey b) \<le> 0) = (timeRank a \<le> timeRank b)"
    using key_rank[OF lc] ok by blast
  then show sorted: "sorted_wrt (\<lambda>a b. timeRank a \<le> timeRank b) ?res"
    unfolding eventsToday_sortBy by (rule sorted_sortBy)
  show "mset ?res = mset ?l"
    by (simp add: eventsToday_sortBy mset_sortBy)
  have mem: "set ?res = set ?l" by (simp add: eventsToday_sortBy set_sortBy)
  {
    fix i j
    assume h: "i < length ?res \<and> j < length ?res \<and> e_time (?res ! i) \<noteq> [] \<and> e_time (?res ! j) = []"
    then have "?res ! i \<in> set ?l" using mem nth_mem by blast
    with ok h have "validTime (e_time (?res ! i))" by blast
    from timeRank_timed[OF this] have ri: "timeRank (?res ! i) < 1440" by auto
    from h have rj: "timeRank (?res ! j) = 1440" by (simp add: timeRank_untimed)
    show "i < j"
    proof (rule ccontr)
      assume "\<not> i < j"
      moreover from h have "i \<noteq> j" by auto
      ultimately have "j < i" by simp
      with sorted h have "timeRank (?res ! j) \<le> timeRank (?res ! i)"
        by (simp add: sorted_wrt_iff_nth_less)
      with ri rj show False by simp
    qed
  }
  {
    fix t assume "validTime t"
    then show "codeUnitCompare t ''99:99'' < 0" using sentinel_greater by blast
  }
qed

theorem C7_events_sorted_by_time_witness:
  "sorted_wrt (\<lambda>a b. timeRank a \<le> timeRank b)
     (eventsToday codeUnitCompare [exampleUntimed, exampleNine] ''2024-01-03'')
   \<and> eventsToday codeUnitCompare [exampleUntimed, exampleNine] ''2024-01-03''
       = [exampleNine, exampleUntimed]"
proof -
  have lc: "\<forall>s t. timeShaped s \<and> timeShaped t
              \<longrightarrow> (codeUnitCompare s t \<le> 0) = (codeUnitCompare s t \<le> 0)" by simp
  have wf: "\<forall>ev \<in> set [exampleUntimed, exampleNine].
              e_date ev = ''2024-01-03'' \<longrightarrow> e_time ev = [] \<or> validTime (e_time ev)"
    by (simp add: exampleUntimed_def exampleNine_def isDigit_def digitVal_def)
  have ev: "eventsToday codeUnitCompare [exampleUntimed, exampleNine] ''2024-01-03''
       = [exampleNine, exampleUntimed]"
    by (simp add: eventsToday_sortBy exampleUntimed_def exampleNine_def timeKey_def)
  from C7_events_sorted_by_time[OF lc wf] ev show ?thesis by blast
qed

subsection \<open>Deleting a course\<close>

lemma courseCounts_fold_total:
  "map_option total (fold countStep as m name)
   = (if refCount as name = 0 then map_option total (m name)
      else Some ((case m name of Some e \<Rightarrow> total e | None \<Rightarrow> 0) + refCount as name))"
proof (induction as arbitrary: m)
  case Nil
  show ?case by (simp add: refCount_def)
next
  case (Cons a as)
  show ?case
    by (simp add: Cons.IH) (auto simp: refCount_def countStep_def Let_def split: option.splits)
qed

lemma courseCounts_total:
  "map_option total (courseCounts as name)
   = (if refCount as name = 0 then None else Some (refCount as name))"
  unfolding courseCounts_def by (simp add: courseCounts_fold_total)

lemma refCount_0: "refCount as name = 0 \<longleftrightarrow> (\<forall>a \<in> set as. a_course a \<noteq> name)"
  by (auto simp: refCount_def filter_empty_conv)

lemma delete_guard:
  "(case courseCounts as name of Some c \<Rightarrow> 0 < total c | None \<Rightarrow> False)
   \<longleftrightarrow> (\<exists>a \<in> set as. a_course a = name)"
  using courseCounts_total[of as name] refCount_0[of as name]
  by (cases "courseCounts as name") (auto split: if_splits)

lemma filter_id_remove1:
  "distinct (map c_id cs) \<Longrightarrow> course \<in> set cs \<Longrightarrow>
   filter (\<lambda>item. c_id item \<noteq> c_id course) cs = remove1 course cs"
proof (induction cs)
  case Nil
  then show ?case by simp
next
  case (Cons c cs)
  show ?case
  proof (cases "c = course")
    case True
    with Cons.prems have "\<forall>x \<in> set cs. c_id x \<noteq> c_id course" by (auto simp: image_iff)
    then have "filter (\<lambda>item. c_id item \<noteq> c_id course) cs = cs" by (simp add: filter_id_conv)
    with True show ?thesis by simp
  next
    case False
    with Cons.prems have "course \<in> set cs" "c_id c \<noteq> c_id course" by auto
    with Cons show ?thesis using False by simp
  qed
qed

text \<open>
  Claim C8. Deleting a course that no assignment references removes exactly that course
  from the course list (course identifiers being unique, the filter on the identifier
  removes that one record and keeps the others in order); deleting a course that at least
  one assignment references is refused and leaves the whole state unchanged.
\<close>

theorem C8_delete_course:
  "((\<forall>a \<in> set (assignments s). a_course a \<noteq> c_name course)
      \<and> distinct (map c_id (classes s)) \<and> course \<in> set (classes s)
    \<longrightarrow> classes (handleDeleteClass course s) = remove1 course (classes s)
        \<and> set (classes (handleDeleteClass course s)) = set (classes s) - {course})
   \<and> ((\<exists>a \<in> set (assignments s). a_course a = c_name course)
    \<longrightarrow> handleDeleteClass course s = s)"
proof (intro conjI impI)
  assume h: "(\<forall>a \<in> set (assignments s). a_course a \<noteq> c_name course)
      \<and> distinct (map c_id (classes s)) \<and> course \<in> set (classes s)"
  then have g: "\<not> (case courseCounts (assignments s) (c_name course) of Some c \<Rightarrow> 0 < total c | None \<Rightarrow> False)"
    by (simp add: delete_guard)
  from h have f: "filter (\<lambda>item. c_id item \<noteq> c_id course) (classes s) = remove1 course (classes s)"
    by (simp add: filter_id_remove1)
  show "classes (handleDeleteClass course s) = remove1 course (classes s)"
    using g f by (simp add: handleDeleteClass_def Let_def)
  from h have "distinct (classes s)" by (simp add: distinct_map)
  then show "set (classes (handleDeleteClass course s)) = set (classes s) - {course}"
    using g f by (simp add: handleDeleteClass_def Let_def)
next
  assume "\<exists>a \<in> set (assignments s). a_course a = c_name course"
  then have "(case courseCounts (assignments s) (c_name course) of Some c \<Rightarrow> 0 < total c | None \<Rightarrow> False)"
    by (simp add: delete_guard)
  then show "handleDeleteClass course s = s"
    by (simp add: handleDeleteClass_def Let_def)
qed

theorem C8_delete_course_witness:
  "classes (handleDeleteClass exampleArt exampleApp) = [exampleMath]
   \<and> handleDeleteClass exampleMath exampleApp = exampleApp"
  using C8_delete_course[of exampleApp exampleArt] C8_delete_course[of exampleApp exampleMath]
  by (simp add: exampleApp_def exampleArt_def exampleMath_def exampleHomework_def)

subsection \<open>The completion invariant\<close>

lemma not_Open: "(st \<noteq> Open) = (st = Done)"
  by (cases st) simp_all

text \<open>
  Claim C9. Create, edit-save (both \<open>handleSubmit\<close>) and the status toggle preserve the
  invariant that \<open>completedAt\<close> is present exactly when the status is \<open>Done\<close>; the toggle
  sets \<open>completedAt\<close> on the step from \<open>Open\<close> to \<open>Done\<close>, clears it on the step from \<open>Done\<close>
  to \<open>Open\<close>, and leaves every other assignment as it was.
\<close>

theorem C9_completed_invariant:
  assumes "\<forall>a \<in> set (assignments s). completedInv a"
  shows "(\<forall>a \<in> set (assignments (handleSubmit uuid now s)). completedInv a)
       \<and> (\<forall>a \<in> set (assignments (handleToggleStatus ident now s)). completedInv a)
       \<and> length (assignments (handleToggleStatus ident now s)) = length (assignments s)
       \<and> (\<forall>i < length (assignments s).
            let a = assignments s ! i; a' = assignments (handleToggleStatus ident now s) ! i in
              (a_id a = ident \<and> status a = Open \<longrightarrow> status a' = Done \<and> completedAt a' = Some now)
            \<and> (a_id a = ident \<and> status a = Done \<longrightarrow> status a' = Open \<and> completedAt a' = None)
            \<and> (a_id a \<noteq> ident \<longrightarrow> a' = a))"
proof (intro conjI)
  show "\<forall>a \<in> set (assignments (handleSubmit uuid now s)). completedInv a"
    using assms by (auto simp: handleSubmit_def Let_def completedInv_def)
  show "\<forall>a \<in> set (assignments (handleToggleStatus ident now s)). completedInv a"
    using assms by (auto simp: handleToggleStatus_def Let_def completedInv_def not_Open split: if_splits)
  show "length (assignments (handleToggleStatus ident now s)) = length (assignments s)"
    by (simp add: handleToggleStatus_def Let_def)
  show "\<forall>i < length (assignments s).
            let a = assignments s ! i; a' = assignments (handleToggleStatus ident now s) ! i in
              (a_id a = ident \<and> status a = Open \<longrightarrow> status a' = Done \<and> completedAt a' = Some now)
            \<and> (a_id a = ident \<and> status a = Done \<longrightarrow> status a' = Open \<and> completedAt a' = None)
            \<and> (a_id a \<noteq> ident \<longrightarrow> a' = a)"
    by (simp add: handleToggleStatus_def Let_def)
qed

theorem C9_completed_invariant_witness:
  "completedAt (hd (assignments (handleToggleStatus ''a1'' ''2024-01-02T10:00:00.000Z'' exampleApp)))
     = Some ''2024-01-02T10:00:00.000Z''
   \<and> list_all completedInv
         (assignments (handleToggleStatus ''a1'' ''2024-01-02T10:00:00.000Z'' exampleApp))
   \<and> list_all completedInv
         (assignments (handleSubmit ''a2'' ''2024-01-02T10:00:00.000Z''
           (exampleApp \<lparr> form := \<lparr> f_title = ''Essay'', f_course = ''Art'', f_dueDate = ''2024-02-01'',
                                   f_dueTime = ''12:00'', f_notes = [] \<rparr> \<rparr>)))"
proof -
  let ?s = "exampleApp \<lparr> form := \<lparr> f_title = ''Essay'', f_course = ''Art'', f_dueDate = ''2024-02-01'',
                                   f_dueTime = ''12:00'', f_notes = [] \<rparr> \<rparr>"
  have h: "\<forall>a \<in> set (assignments exampleApp). completedInv a"
    by (simp add: exampleApp_def exampleHomework_def completedInv_def)
  have h': "\<forall>a \<in> set (assignments ?s). completedInv a"
    using h by simp
  have a: "completedAt (hd (assignments (handleToggleStatus ''a1'' ''2024-01-02T10:00:00.000Z'' exampleApp)))
     = Some ''2024-01-02T10:00:00.000Z''"
    by (simp add: handleToggleStatus_def exampleApp_def exampleHomework_def Let_def)
  have b: "\<forall>a \<in> set (assignments (handleToggleStatus ''a1'' ''2024-01-02T10:00:00.000Z'' exampleApp)).
         completedInv a"
    using C9_completed_invariant[OF h, of "''a2''" "''2024-01-02T10:00:00.000Z''" "''a1''"] by blast
  have c: "\<forall>a \<in> set (assignments (handleSubmit ''a2'' ''2024-01-02T10:00:00.000Z'' ?s)). completedInv a"
    using C9_completed_invariant[OF h', of "''a2''" "''2024-01-02T10:00:00.000Z''" "''a1''"] by blast
  from a b c show ?thesis by (simp add: list_all_iff)
qed

subsection \<open>Renaming a course\<close>

text \<open>
  Claim C10. Saving a rename whose trimmed new name is not empty and does not collide,
  ignoring case, with another course rewrites the course field of every assignment that
  names the old course, leaves every other field of those assignments and every other
  assignment unchanged, and persists the rewritten list in the same step.
\<close>

theorem C10_rename_rewrites_assignments:
  assumes "trim (editingClassName s) \<noteq> []"
    and "\<not> list_ex (\<lambda>item. c_id item \<noteq> c_id course
              \<and> toLowerCase (c_name item) = toLowerCase (trim (editingClassName s))) (classes s)"
  shows "length (assignments (handleSaveEditClass lc course s)) = length (assignments s)
       \<and> (\<forall>i < length (assignments s).
            let a = assignments s ! i; a' = assignments (handleSaveEditClass lc course s) ! i in
              (a_course a = c_name course \<longrightarrow> a' = a \<lparr> a_course := trim (editingClassName s) \<rparr>)
            \<and> (a_course a \<noteq> c_name course \<longrightarrow> a' = a))
       \<and> storedAssignments (handleSaveEditClass lc course s)
           = Some (assignments (handleSaveEditClass lc course s))"
  using assms by (simp add: handleSaveEditClass_def Let_def)

theorem C10_rename_rewrites_assignments_witness:
  "length (assignments (handleSaveEditClass codeUnitCompare exampleMath
      (exampleApp \<lparr> editingClassName := '' Algebra '' \<rparr>))) = 1
   \<and> a_course (assignments (handleSaveEditClass codeUnitCompare exampleMath
      (exampleApp \<lparr> editingClassName := '' Algebra '' \<rparr>)) ! 0) = ''Algebra''"
proof -
  let ?s = "exampleApp \<lparr> editingClassName := '' Algebra '' \<rparr>"
  have t: "trim '' Algebra '' = ''Algebra''"
    by (simp add: trim_def isWhiteSpace_def)
  have h1: "trim (editingClassName ?s) \<noteq> []" by (simp add: t)
  have h2: "\<not> list_ex (\<lambda>item. c_id item \<noteq> c_id exampleMath
              \<and> toLowerCase (c_name item) = toLowerCase (trim (editingClassName ?s))) (classes ?s)"
    by (simp add: t exampleApp_def exampleArt_def exampleMath_def toLowerCase_def lowerChar_def)
  have a0: "assignments ?s = [exampleHomework]" by (simp add: exampleApp_def)
  have c0: "a_course exampleHomework = c_name exampleMath"
    by (simp add: exampleHomework_def exampleMath_def)
  note c = C10_rename_rewrites_assignments[OF h1 h2, of codeUnitCompare]
  from c have len: "length (assignments (handleSaveEditClass codeUnitCompare exampleMath ?s)) = 1"
    unfolding a0 by simp
  from c have "assignments (handleSaveEditClass codeUnitCompare exampleMath ?s) ! 0
      = exampleHomework \<lparr> a_course := trim (editingClassName ?s) \<rparr>"
    unfolding a0 using c0 by (simp add: Let_def)
  then have "a_course (assignments (handleSaveEditClass codeUnitCompare exampleMath ?s) ! 0) = ''Algebra''"
    by (simp add: t)
  with len show ?thesis by simp
qed

end
